theory Spec2Isabelle
  imports Complex_Main
begin

section \<open>K-distributed sea clutter simulation: values, errors, arrays\<close>

text \<open>
  The program computes with numpy arrays of double-precision numbers.  Finite numbers are
  modelled as real (or complex) numbers, so rounding is not modelled.  The special values
  of floating-point arithmetic are modelled where the program itself looks at them (the
  texture field after the non-linear transform): a value of type \<open>fl\<close> is a finite real,
  plus or minus infinity, or NaN.

  Every exception the program can raise is a value of type \<open>error\<close>.  \<open>NonFinite\<close> is not a
  Python exception: it marks the places where numpy would carry on with an infinity or a
  NaN (a division by zero, a non-finite quantile) in a part of the program that is modelled
  over the real numbers; nothing is stated about the program beyond such a point.
\<close>

datatype error = IndexError | ValueError | AssertionError | UnboundLocalError | NonFinite

datatype fl = Fin real | PInf | NInf | NaN

type_synonym 'a field = "'a list list"

text \<open>The \<open>==\<close> of floating-point numbers: NaN is equal to nothing, itself included.\<close>

fun fl_eq :: "fl \<Rightarrow> fl \<Rightarrow> bool" where
  "fl_eq NaN _ = False"
| "fl_eq _ NaN = False"
| "fl_eq a b = (a = b)"

definition rows :: "'a field \<Rightarrow> nat" where
  "rows A = length A"

definition cols :: "'a field \<Rightarrow> nat" where
  "cols A = (case A of [] \<Rightarrow> 0 | r # _ \<Rightarrow> length r)"

definition shape2 :: "'a field \<Rightarrow> nat \<times> nat" where
  "shape2 A = (rows A, cols A)"

text \<open>A list of rows is a two-dimensional array when all rows have the same length.\<close>

definition rect :: "'a field \<Rightarrow> bool" where
  "rect A = list_all (\<lambda>r. length r = cols A) A"

text \<open>
  numpy broadcasting of two dimensions: equal, or one of them is 1.
\<close>

definition bdim :: "nat \<Rightarrow> nat \<Rightarrow> nat option" where
  "bdim a b = (if a = b then Some a else if a = 1 then Some b
               else if b = 1 then Some a else None)"

definition bidx :: "nat \<Rightarrow> nat \<Rightarrow> nat" where
  "bidx n i = (if n = 1 then 0 else i)"

text \<open>
  An elementwise binary operation on two-dimensional arrays, with broadcasting; shapes that
  do not broadcast raise ValueError.
\<close>

definition broadcast2 :: "('a \<Rightarrow> 'b \<Rightarrow> 'c) \<Rightarrow> 'a field \<Rightarrow> 'b field \<Rightarrow> error + 'c field" where
  "broadcast2 f A B =
     (case (bdim (rows A) (rows B), bdim (cols A) (cols B)) of
        (Some h, Some w) \<Rightarrow>
          Inr (map (\<lambda>i. map (\<lambda>j. f (A ! bidx (rows A) i ! bidx (cols A) j)
                                     (B ! bidx (rows B) i ! bidx (cols B) j)) [0..<w]) [0..<h])
      | _ \<Rightarrow> Inl ValueError)"

text \<open>\<open>np.sum\<close> of a two-dimensional array: the sum of all its cells.\<close>

definition np_sum :: "real field \<Rightarrow> real" where
  "np_sum A = sum_list (map sum_list A)"

definition cells :: "'a field \<Rightarrow> 'a list" where
  "cells A = concat A"

section \<open>Hermite polynomials\<close>

text \<open>
  \<open>hermite_polynomials(x, n)\<close>: an order above 5 is reset to 5; then one \<open>if\<close> per order from
  5 down to 0 assigns \<open>Hn\<close>.  For an order below 0 no branch assigns it and the \<open>return\<close>
  raises UnboundLocalError.
\<close>

definition hermite_polynomials :: "real \<Rightarrow> int \<Rightarrow> error + real" where
  "hermite_polynomials x n0 =
     (let n = (if n0 > 5 then 5 else n0);
          Hn = None;
          Hn = (if n = 5 then Some (32 * x ^ 5 - 160 * x ^ 3 + 120) else Hn);
          Hn = (if n = 4 then Some (16 * x ^ 4 - 48 * x ^ 2 + 12) else Hn);
          Hn = (if n = 3 then Some (8 * x ^ 3 - 12 * x) else Hn);
          Hn = (if n = 2 then Some (4 * x ^ 2 - 2) else Hn);
          Hn = (if n = 1 then Some (2 * x) else Hn);
          Hn = (if n = 0 then Some 1 else Hn)
      in case Hn of None \<Rightarrow> Inl UnboundLocalError | Some h \<Rightarrow> Inr h)"

text \<open>
  The reference the claims compare with: the physicists' Hermite polynomials, by their
  three-term recurrence \<open>H (n + 1) = 2 x H n - 2 n H (n - 1)\<close>.
\<close>

fun physicist_hermite :: "nat \<Rightarrow> real \<Rightarrow> real" where
  "physicist_hermite 0 x = 1"
| "physicist_hermite (Suc 0) x = 2 * x"
| "physicist_hermite (Suc (Suc n)) x =
     2 * x * physicist_hermite (Suc n) x - 2 * real (Suc n) * physicist_hermite n x"

text \<open>
  The definition in the docstring of the evaluator,
  \<open>H_n(x) = (-1)^n exp(x^2) d^n/dx^n exp(-x^2)\<close>, needs the \<open>n\<close>-th derivative of a function:
  \<open>nth_derivative_is n f g\<close> says that \<open>g\<close> is the \<open>n\<close>-th derivative of \<open>f\<close> on the real line.
\<close>

fun nth_derivative_is :: "nat \<Rightarrow> (real \<Rightarrow> real) \<Rightarrow> (real \<Rightarrow> real) \<Rightarrow> bool" where
  "nth_derivative_is 0 f g = (g = f)"
| "nth_derivative_is (Suc n) f g =
     (\<exists>d. nth_derivative_is n f d \<and> (\<forall>x. (d has_real_derivative g x) (at x)))"

section \<open>Coefficients of the ACF polynomial\<close>

text \<open>
  One pass of the loop of \<open>coeff_acf_polyn\<close>, for the order \<open>n\<close>:
  \<open>factor = 1/(pi n! 2^n)\<close>, \<open>Hn = hermite_polynomials(x, n)\<close>,
  \<open>alpha_n = factor * np.sum(np.exp(-x**2) * Hn * gamma_cdf_inv)**2\<close>.
\<close>

definition hermite_weight :: "nat \<Rightarrow> real \<Rightarrow> error + real" where
  "hermite_weight n x =
     (case hermite_polynomials x (int n) of
        Inl e \<Rightarrow> Inl e
      | Inr Hn \<Rightarrow> Inr (exp (- (x ^ 2)) * Hn))"

fun sequence_list :: "(error + 'a) list \<Rightarrow> error + 'a list" where
  "sequence_list [] = Inr []"
| "sequence_list (r # rs) =
     (case r of Inl e \<Rightarrow> Inl e
      | Inr v \<Rightarrow> (case sequence_list rs of Inl e \<Rightarrow> Inl e | Inr vs \<Rightarrow> Inr (v # vs)))"

definition map_field_err :: "('a \<Rightarrow> error + 'b) \<Rightarrow> 'a field \<Rightarrow> error + 'b field" where
  "map_field_err f A = sequence_list (map (\<lambda>r. sequence_list (map f r)) A)"

definition alpha :: "real field \<Rightarrow> real field \<Rightarrow> nat \<Rightarrow> error + real" where
  "alpha x gamma_cdf_inv n =
     (let factor = 1 / (pi * fact n * 2 ^ n)
      in case map_field_err (hermite_weight n) x of
           Inl e \<Rightarrow> Inl e
         | Inr wx \<Rightarrow>
             (case broadcast2 (*) wx gamma_cdf_inv of
                Inl e \<Rightarrow> Inl e
              | Inr terms \<Rightarrow> Inr (factor * (np_sum terms) ^ 2)))"

fun coeff_loop :: "real field \<Rightarrow> real field \<Rightarrow> nat list \<Rightarrow> real list \<Rightarrow> error + real list" where
  "coeff_loop x g [] coeffs = Inr coeffs"
| "coeff_loop x g (n # ns) coeffs =
     (case alpha x g n of
        Inl e \<Rightarrow> Inl e
      | Inr alpha_n \<Rightarrow> coeff_loop x g ns (coeffs @ [alpha_n]))"

text \<open>\<open>range(2, -1, -1)\<close> is the list 2, 1, 0.\<close>

definition coeff_acf_polyn :: "real field \<Rightarrow> real field \<Rightarrow> error + real list" where
  "coeff_acf_polyn x gamma_cdf_inv = coeff_loop x gamma_cdf_inv [2, 1, 0] []"

text \<open>
  \<open>np.array(coeffs) / coeffs[-1]\<close>: IndexError on an empty list; a zero last entry makes
  numpy produce infinities or NaN, which the real-valued model does not follow.
\<close>

definition normalize_coeffs :: "real list \<Rightarrow> error + real list" where
  "normalize_coeffs coeffs =
     (if coeffs = [] then Inl IndexError
      else if last coeffs = 0 then Inl NonFinite
      else Inr (map (\<lambda>c. c / last coeffs) coeffs))"

text \<open>
  The two statements of the engine's constructor that make the coefficient vector:
  \<open>coeffs_field = coeff_acf_polyn(Gwn_field, gamma_cdf_inv_field)\<close>,
  \<open>coeffs_field = np.array(coeffs_field) / coeffs_field[-1]\<close>.
\<close>

definition coeffs_field :: "real field \<Rightarrow> real field \<Rightarrow> error + real list" where
  "coeffs_field Gwn_field gamma_cdf_inv_field =
     (case coeff_acf_polyn Gwn_field gamma_cdf_inv_field of
        Inl e \<Rightarrow> Inl e
      | Inr coeffs \<Rightarrow> normalize_coeffs coeffs)"

text \<open>
  The value of a polynomial given by its coefficients, highest degree first (Horner), used
  to state what the coefficient vector means.
\<close>

definition polyval :: "real list \<Rightarrow> real \<Rightarrow> real" where
  "polyval p g = foldl (\<lambda>acc c. acc * g + c) 0 p"

text \<open>
  The coefficient as the specification words it: the factor times the square of the
  arithmetic mean of \<open>exp(-x^2) H_n(x) T(x)\<close> over all cells.
\<close>

definition hermite_terms :: "nat \<Rightarrow> real field \<Rightarrow> real field \<Rightarrow> real list" where
  "hermite_terms n x t =
     map2 (\<lambda>xv tv. exp (- (xv ^ 2)) * physicist_hermite n xv * tv) (cells x) (cells t)"

definition sample_mean :: "real list \<Rightarrow> real" where
  "sample_mean vs = sum_list vs / real (length vs)"

definition alpha_mean_spec :: "nat \<Rightarrow> real field \<Rightarrow> real field \<Rightarrow> real" where
  "alpha_mean_spec n x t =
     (1 / (pi * fact n * 2 ^ n)) * (sample_mean (hermite_terms n x t)) ^ 2"

text \<open>The same with the sum over all cells in place of the mean.\<close>

definition alpha_sum :: "nat \<Rightarrow> real field \<Rightarrow> real field \<Rightarrow> real" where
  "alpha_sum n x t = (1 / (pi * fact n * 2 ^ n)) * (sum_list (hermite_terms n x t)) ^ 2"

section \<open>Library functions taken as parameters\<close>

text \<open>
  The functions of numpy and scipy that the program calls are not part of it.  They are
  parameters of the model: the random number generator (\<open>np.random.normal\<close>, which maps a
  generator state and a shape to a field and the next state), the two-dimensional discrete
  Fourier transform and its inverse, the complementary error function, the inverse of the
  regularised lower incomplete gamma function, and the polynomial root solver.
\<close>

record 'r env =
  np_normal :: "'r \<Rightarrow> nat \<Rightarrow> nat \<Rightarrow> real field \<times> 'r"
  np_fft2 :: "complex field \<Rightarrow> complex field"
  np_ifft2 :: "complex field \<Rightarrow> complex field"
  ss_erfc :: "real \<Rightarrow> real"
  ss_gammaincinv :: "real \<Rightarrow> real \<Rightarrow> fl"
  np_roots :: "real list \<Rightarrow> complex list"

text \<open>A field has the shape \<open>(h, w)\<close>: \<open>h\<close> rows of length \<open>w\<close>.\<close>

definition has_shape :: "'a field \<Rightarrow> nat \<Rightarrow> nat \<Rightarrow> bool" where
  "has_shape A h w = (length A = h \<and> list_all (\<lambda>r. length r = w) A)"

text \<open>
  What the theorems about shapes assume of the library: the generator returns the shape it
  is asked for, and the Fourier transforms return the shape they are given.
\<close>

definition shape_preserving :: "'r env \<Rightarrow> bool" where
  "shape_preserving e =
     ((\<forall>g h w. has_shape (fst (np_normal e g h w)) h w) \<and>
      (\<forall>A h w. has_shape A h w \<longrightarrow> has_shape (np_fft2 e A) h w) \<and>
      (\<forall>A h w. has_shape A h w \<longrightarrow> has_shape (np_ifft2 e A) h w))"

section \<open>The memoryless non-linear transform\<close>

text \<open>
  \<open>mnlt(x, v)\<close>: \<open>nlx = 1 - ss.erfc(x/np.sqrt(2))/2\<close>, \<open>y = ss.gammaincinv(v, nlx)\<close>.
  The quantile function may return an infinity or NaN.
\<close>

definition mnlt :: "(real \<Rightarrow> real) \<Rightarrow> (real \<Rightarrow> real \<Rightarrow> fl) \<Rightarrow> real \<Rightarrow> real \<Rightarrow> fl" where
  "mnlt erfc gammaincinv x v =
     (let nlx = 1 - erfc (x / sqrt 2) / 2;
          y = gammaincinv v nlx
      in y)"

definition mnlt_field :: "'r env \<Rightarrow> real field \<Rightarrow> real \<Rightarrow> fl field" where
  "mnlt_field e X v = map (map (\<lambda>x. mnlt (ss_erfc e) (ss_gammaincinv e) x v)) X"

text \<open>
  Where the program goes on computing in real numbers with the transformed field
  (\<open>coeff_acf_polyn\<close>), the model requires every cell to be finite.
\<close>

fun fl_real :: "fl \<Rightarrow> error + real" where
  "fl_real (Fin r) = Inr r"
| "fl_real _ = Inl NonFinite"

section \<open>Solving the ACF polynomial, on a store\<close>

text \<open>
  \<open>solve_acf_polyn\<close> copies its coefficient array and assigns into the copy, so the arrays
  live in a store: \<open>store h\<close> maps an address to an array and the addresses below \<open>nxt h\<close>
  are allocated.  The result array is new and complex (\<open>np.zeros(..., dtype=complex)\<close>); it
  is passed through the loops as a value.
\<close>

datatype 'a ndarray = Arr1 "'a list" | Arr2 "'a list list" | Arr3 "'a list list list"

record heap =
  store :: "nat \<Rightarrow> real ndarray"
  nxt :: nat

definition alloc :: "heap \<Rightarrow> real ndarray \<Rightarrow> nat \<times> heap" where
  "alloc h a = (nxt h, h\<lparr>store := (store h)(nxt h := a), nxt := Suc (nxt h)\<rparr>)"

definition write_arr :: "heap \<Rightarrow> nat \<Rightarrow> real ndarray \<Rightarrow> heap" where
  "write_arr h p a = h\<lparr>store := (store h)(p := a)\<rparr>"

text \<open>
  The body of both loops for one cell with texture ACF value \<open>t\<close>:
  \<open>coeffs[-1] = coeff_acf_polyn[-1] - t\<close>, then \<open>np.roots(coeffs)[0]\<close>.
  \<open>[-1]\<close> on an empty array and \<open>[0]\<close> on an empty array of roots raise IndexError;
  \<open>np.roots\<close> raises ValueError on an array that is not one-dimensional.
\<close>

definition solve_cell ::
  "(real list \<Rightarrow> complex list) \<Rightarrow> nat \<Rightarrow> nat \<Rightarrow> real \<Rightarrow> heap \<Rightarrow> (error + complex) \<times> heap" where
  "solve_cell roots p_coeff p_copy t h =
     (case store h p_coeff of
        Arr1 orig \<Rightarrow>
          (if orig = [] then (Inl IndexError, h)
           else (case store h p_copy of
                   Arr1 coeffs \<Rightarrow>
                     (if coeffs = [] then (Inl IndexError, h)
                      else let h' = write_arr h p_copy
                                      (Arr1 (coeffs[length coeffs - 1 := last orig - t]))
                           in (case store h' p_copy of
                                 Arr1 coeffs' \<Rightarrow>
                                   (case roots coeffs' of
                                      [] \<Rightarrow> (Inl IndexError, h')
                                    | z # _ \<Rightarrow> (Inr z, h'))
                               | _ \<Rightarrow> (Inl ValueError, h')))
                 | _ \<Rightarrow> (Inl ValueError, h)))
      | Arr2 orig \<Rightarrow> (if orig = [] then (Inl IndexError, h) else (Inl ValueError, h))
      | Arr3 orig \<Rightarrow> (if orig = [] then (Inl IndexError, h) else (Inl ValueError, h)))"

text \<open>\<open>gamma_acf[r]\<close> and \<open>gamma_acf[r, theta]\<close>, read from the store at every pass.\<close>

definition read1 :: "heap \<Rightarrow> nat \<Rightarrow> nat \<Rightarrow> real" where
  "read1 h p r = (case store h p of Arr1 g \<Rightarrow> g ! r | _ \<Rightarrow> 0)"

definition read2 :: "heap \<Rightarrow> nat \<Rightarrow> nat \<Rightarrow> nat \<Rightarrow> real" where
  "read2 h p r theta = (case store h p of Arr2 g \<Rightarrow> g ! r ! theta | _ \<Rightarrow> 0)"

text \<open>The loop \<open>for r in range(Nr)\<close> of the one-dimensional case, over the list of indices.\<close>

fun solve_loop1 ::
  "(real list \<Rightarrow> complex list) \<Rightarrow> nat \<Rightarrow> nat \<Rightarrow> nat \<Rightarrow> nat list \<Rightarrow> heap \<Rightarrow> complex list
     \<Rightarrow> (error + complex list) \<times> heap" where
  "solve_loop1 roots p_gamma p_coeff p_copy [] h gaussian_acf = (Inr gaussian_acf, h)"
| "solve_loop1 roots p_gamma p_coeff p_copy (r # rs) h gaussian_acf =
     (case solve_cell roots p_coeff p_copy (read1 h p_gamma r) h of
        (Inl e, h') \<Rightarrow> (Inl e, h')
      | (Inr z, h') \<Rightarrow>
          solve_loop1 roots p_gamma p_coeff p_copy rs h' (gaussian_acf[r := z]))"

text \<open>The inner loop \<open>for theta in range(Ntheta)\<close> for the row \<open>r\<close>, and the outer loop.\<close>

fun solve_loop_theta ::
  "(real list \<Rightarrow> complex list) \<Rightarrow> nat \<Rightarrow> nat \<Rightarrow> nat \<Rightarrow> nat \<Rightarrow> nat list \<Rightarrow> heap
     \<Rightarrow> complex field \<Rightarrow> (error + complex field) \<times> heap" where
  "solve_loop_theta roots p_gamma p_coeff p_copy r [] h gaussian_acf = (Inr gaussian_acf, h)"
| "solve_loop_theta roots p_gamma p_coeff p_copy r (theta # thetas) h gaussian_acf =
     (case solve_cell roots p_coeff p_copy (read2 h p_gamma r theta) h of
        (Inl e, h') \<Rightarrow> (Inl e, h')
      | (Inr z, h') \<Rightarrow>
          solve_loop_theta roots p_gamma p_coeff p_copy r thetas h'
            (gaussian_acf[r := (gaussian_acf ! r)[theta := z]]))"

fun solve_loop2 ::
  "(real list \<Rightarrow> complex list) \<Rightarrow> nat \<Rightarrow> nat \<Rightarrow> nat \<Rightarrow> nat \<Rightarrow> nat list \<Rightarrow> heap
     \<Rightarrow> complex field \<Rightarrow> (error + complex field) \<times> heap" where
  "solve_loop2 roots p_gamma p_coeff p_copy Ntheta [] h gaussian_acf = (Inr gaussian_acf, h)"
| "solve_loop2 roots p_gamma p_coeff p_copy Ntheta (r # rs) h gaussian_acf =
     (case solve_loop_theta roots p_gamma p_coeff p_copy r [0..<Ntheta] h gaussian_acf of
        (Inl e, h') \<Rightarrow> (Inl e, h')
      | (Inr g', h') \<Rightarrow> solve_loop2 roots p_gamma p_coeff p_copy Ntheta rs h' g')"

text \<open>
  \<open>solve_acf_polyn(gamma_acf, coeff_acf_polyn)\<close>, the arguments given by their addresses.
  An array of any other rank than 1 or 2 enters neither loop and the zeros are returned.
\<close>

definition solve_acf_polyn ::
  "(real list \<Rightarrow> complex list) \<Rightarrow> heap \<Rightarrow> nat \<Rightarrow> nat \<Rightarrow> (error + complex ndarray) \<times> heap" where
  "solve_acf_polyn roots h p_gamma p_coeff =
     (let (p_copy, h1) = alloc h (store h p_coeff)
      in case store h1 p_gamma of
           Arr1 g \<Rightarrow>
             (let gaussian_acf = replicate (length g) 0;
                  Nr = length g
              in case solve_loop1 roots p_gamma p_coeff p_copy [0..<Nr] h1 gaussian_acf of
                   (Inl e, h') \<Rightarrow> (Inl e, h')
                 | (Inr res, h') \<Rightarrow> (Inr (Arr1 res), h'))
         | Arr2 g \<Rightarrow>
             (let gaussian_acf = replicate (rows g) (replicate (cols g) 0);
                  Nr = rows g;
                  Ntheta = cols g
              in case solve_loop2 roots p_gamma p_coeff p_copy Ntheta [0..<Nr] h1 gaussian_acf of
                   (Inl e, h') \<Rightarrow> (Inl e, h')
                 | (Inr res, h') \<Rightarrow> (Inr (Arr2 res), h'))
         | Arr3 g \<Rightarrow> (Inr (Arr3 (map (map (map (\<lambda>_. 0))) g)), h1))"

text \<open>The value the inverter puts in a cell with texture ACF value \<open>t\<close>.\<close>

definition first_root :: "(real list \<Rightarrow> complex list) \<Rightarrow> real list \<Rightarrow> real \<Rightarrow> complex" where
  "first_root roots coeffs t = hd (roots (coeffs[length coeffs - 1 := last coeffs - t]))"

definition has_root :: "(real list \<Rightarrow> complex list) \<Rightarrow> real list \<Rightarrow> real \<Rightarrow> bool" where
  "has_root roots coeffs t = (roots (coeffs[length coeffs - 1 := last coeffs - t]) \<noteq> [])"

text \<open>
  To state what the inverter returns: an array mapped cell by cell, the list of its cells,
  and the arrays the loops handle (rank 1, or rank 2 with rows of one length).
\<close>

fun map_nd :: "('a \<Rightarrow> 'b) \<Rightarrow> 'a ndarray \<Rightarrow> 'b ndarray" where
  "map_nd f (Arr1 g) = Arr1 (map f g)"
| "map_nd f (Arr2 g) = Arr2 (map (map f) g)"
| "map_nd f (Arr3 g) = Arr3 (map (map (map f)) g)"

fun cells_nd :: "'a ndarray \<Rightarrow> 'a list" where
  "cells_nd (Arr1 g) = g"
| "cells_nd (Arr2 g) = concat g"
| "cells_nd (Arr3 g) = concat (concat g)"

fun rank12 :: "'a ndarray \<Rightarrow> bool" where
  "rank12 (Arr1 g) = True"
| "rank12 (Arr2 g) = rect g"
| "rank12 (Arr3 g) = False"

text \<open>
  The invariant of the loops with respect to the store \<open>h0\<close> at their start: only the copy
  at \<open>p_copy\<close> has been written, and it is the coefficient array \<open>co\<close> up to its last entry.
\<close>

definition copy_inv :: "heap \<Rightarrow> nat \<Rightarrow> real list \<Rightarrow> heap \<Rightarrow> bool" where
  "copy_inv h0 p_copy co h =
     (nxt h = nxt h0 \<and> (\<forall>p. p \<noteq> p_copy \<longrightarrow> store h p = store h0 p)
      \<and> (\<exists>u. store h p_copy = Arr1 (co[length co - 1 := u])))"

text \<open>What one pass of a loop yields for a cell with texture ACF value \<open>t\<close>.\<close>

definition cell_result :: "(real list \<Rightarrow> complex list) \<Rightarrow> real list \<Rightarrow> real \<Rightarrow> error + complex" where
  "cell_result roots co t =
     (if has_root roots co t then Inr (first_root roots co t) else Inl IndexError)"

section \<open>Grids, the speckle field and the composer\<close>

text \<open>
  \<open>np.linspace(start, stop, num, endpoint=True)\<close> for \<open>num >= 0\<close>, and \<open>np.meshgrid(xs, ys)\<close>:
  both results have one row per element of \<open>ys\<close> and one column per element of \<open>xs\<close>.
\<close>

definition linspace :: "real \<Rightarrow> real \<Rightarrow> nat \<Rightarrow> real list" where
  "linspace start stop num =
     (if num = 1 then [start]
      else map (\<lambda>i. start + real i * ((stop - start) / real (num - 1))) [0..<num])"

definition meshgrid :: "'a list \<Rightarrow> 'a list \<Rightarrow> 'a field \<times> 'a field" where
  "meshgrid xs ys = (map (\<lambda>y. xs) ys, map (\<lambda>y. map (\<lambda>x. y) xs) ys)"

text \<open>An elementwise operation on two arrays made by \<open>meshgrid\<close>, which have the same shape.\<close>

definition ew2 :: "('a \<Rightarrow> 'b \<Rightarrow> 'c) \<Rightarrow> 'a field \<Rightarrow> 'b field \<Rightarrow> 'c field" where
  "ew2 f A B = map2 (map2 f) A B"

text \<open>
  \<open>generate_correlated_Gaussian_via_expdecay()\<close>: a complex field on a grid of the fixed
  size \<open>M = 300\<close>, white noise filtered by the square root of a power-law spectrum.
\<close>

definition generate_correlated_Gaussian_via_expdecay ::
  "'r env \<Rightarrow> 'r \<Rightarrow> (error + complex field) \<times> 'r" where
  "generate_correlated_Gaussian_via_expdecay e g =
     (let M = 300;
          L = 10;
          dx = L / real M;
          fs = 1 / dx;
          (Gwn, g') = np_normal e g M M;
          F_Gw = np_fft2 e (map (map complex_of_real) Gwn);
          fx = linspace 0.1 fs M;
          fy = linspace 0.1 fs M;
          (Fx, Fy) = meshgrid fx fy;
          DFs = ew2 (\<lambda>a b. sqrt (a ^ 2 + b ^ 2)) Fx Fy;
          a = 1;
          F_Rc = map (map (\<lambda>d. a * (d powr (-1 * 0.6)))) DFs
      in case broadcast2 (\<lambda>z r. z * complex_of_real r) F_Gw (map (map sqrt) F_Rc) of
           Inl err \<Rightarrow> (Inl err, g')
         | Inr P \<Rightarrow> (Inr (np_ifft2 e P), g'))"

text \<open>
  The product of the complex speckle with the real square root of the texture, and its
  absolute value.  \<open>np.sqrt\<close> of a negative real is NaN.  A complex number with a
  non-finite part is kept only up to what its absolute value is: infinite, or NaN.
\<close>

datatype cfl = CFin complex | CInf | CNaN

fun np_sqrt :: "fl \<Rightarrow> fl" where
  "np_sqrt (Fin t) = (if t < 0 then NaN else Fin (sqrt t))"
| "np_sqrt PInf = PInf"
| "np_sqrt NInf = NaN"
| "np_sqrt NaN = NaN"

fun cmul :: "complex \<Rightarrow> fl \<Rightarrow> cfl" where
  "cmul z (Fin r) = CFin (z * complex_of_real r)"
| "cmul z NaN = CNaN"
| "cmul z _ = (if z = 0 then CNaN else CInf)"

fun np_abs :: "cfl \<Rightarrow> fl" where
  "np_abs (CFin z) = Fin (cmod z)"
| "np_abs CInf = PInf"
| "np_abs CNaN = NaN"

text \<open>
  The composer, the last two statements of the frame generator:
  \<open>CKn_field = Gpn_field * np.sqrt(Gan_field)\<close>, \<open>Ckn_field_am = np.abs(CKn_field)\<close>.
\<close>

definition compose_K :: "complex field \<Rightarrow> fl field \<Rightarrow> error + fl field" where
  "compose_K Gpn_field Gan_field =
     (case broadcast2 cmul Gpn_field (map (map np_sqrt) Gan_field) of
        Inl e \<Rightarrow> Inl e
      | Inr CKn_field \<Rightarrow> Inr (map (map np_abs) CKn_field))"

section \<open>The engine\<close>

record kfield =
  img_w :: int
  img_h :: int
  gamma_shape :: real
  gamma_field_acf :: "real field"
  gaussian_field_acf :: "complex field"

text \<open>
  \<open>KField.__init__\<close>.  A negative \<open>img_w\<close> makes \<open>np.linspace\<close> raise ValueError, a negative
  \<open>img_h\<close> makes \<open>np.random.normal\<close> raise it.  Both \<open>xs\<close> and \<open>ys\<close> are made with
  \<open>num=img_w\<close>.  The two arrays handed to \<open>solve_acf_polyn\<close> are put in a store.  The
  inverter returns a two-dimensional array for a two-dimensional argument, so the last
  branch is never taken.
\<close>

definition kfield_init :: "'r env \<Rightarrow> int \<Rightarrow> int \<Rightarrow> real \<Rightarrow> 'r \<Rightarrow> error + (kfield \<times> 'r)" where
  "kfield_init e w h v g =
     (if w < 0 \<or> h < 0 then Inl ValueError
      else if v = 0 then Inl NonFinite
      else
        let xs = linspace 10 (real_of_int h) (nat w);
            ys = linspace 10 (real_of_int h) (nat w);
            (XS, YS) = meshgrid xs ys;
            (Gwn_field, g') = np_normal e g (nat h) (nat w);
            gamma_acf = ew2 (\<lambda>x y. 1 + exp (- (x + y) / 10) * cos (pi * y / 8) / v) XS YS;
            gamma_cdf_inv_field = mnlt_field e Gwn_field v
        in case map_field_err fl_real gamma_cdf_inv_field of
             Inl err \<Rightarrow> Inl err
           | Inr gamma_cdf_inv \<Rightarrow>
               (case coeffs_field Gwn_field gamma_cdf_inv of
                  Inl err \<Rightarrow> Inl err
                | Inr coeffs \<Rightarrow>
                    (let h0 = \<lparr>store = (\<lambda>_. Arr1 [])(0 := Arr2 gamma_acf, 1 := Arr1 coeffs),
                               nxt = 2\<rparr>
                     in case fst (solve_acf_polyn (np_roots e) h0 0 1) of
                          Inl err \<Rightarrow> Inl err
                        | Inr (Arr2 gaussian_acf) \<Rightarrow>
                            Inr (\<lparr>img_w = w, img_h = h, gamma_shape = v,
                                  gamma_field_acf = gamma_acf,
                                  gaussian_field_acf = gaussian_acf\<rparr>, g')
                        | Inr _ \<Rightarrow> Inl ValueError)))"

text \<open>
  The texture of one frame: white noise coloured in the frequency domain by the cached
  Gaussian ACF, then the non-linear transform (the statements of the frame generator up to
  the assertions).
\<close>

definition texture_field :: "'r env \<Rightarrow> kfield \<Rightarrow> 'r \<Rightarrow> (error + fl field) \<times> 'r" where
  "texture_field e s g =
     (let v = gamma_shape s;
          (height, width) = shape2 (gamma_field_acf s);
          (Gwn_field, g') = np_normal e g height width;
          F_Gw_field = np_fft2 e (map (map complex_of_real) Gwn_field);
          F_Grc_field = np_fft2 e (gaussian_field_acf s);
          G_Gga_field = np_fft2 e (map (map complex_of_real) (gamma_field_acf s))
      in case broadcast2 (*) F_Gw_field (map (map csqrt) F_Grc_field) of
           Inl err \<Rightarrow> (Inl err, g')
         | Inr P \<Rightarrow>
             (let Gcn_field = map (map Re) (np_ifft2 e P)
              in (Inr (mnlt_field e Gcn_field v), g')))"

text \<open>\<open>np.sum(field == value)\<close>: the number of cells equal to the value.\<close>

definition count_eq :: "fl field \<Rightarrow> fl \<Rightarrow> nat" where
  "count_eq A c = length (filter (\<lambda>a. fl_eq a c) (cells A))"

text \<open>
  \<open>KField.generate_K_distributed_noise_fast\<close>.  The engine is passed in and returned, with
  the state of the random number generator; the first component is what the call returns
  (amplitude and texture) or raises.
\<close>

definition generate_K_distributed_noise_fast ::
  "'r env \<Rightarrow> kfield \<Rightarrow> 'r \<Rightarrow> (error + (fl field \<times> fl field)) \<times> kfield \<times> 'r" where
  "generate_K_distributed_noise_fast e s g =
     (case texture_field e s g of
        (Inl err, g1) \<Rightarrow> (Inl err, s, g1)
      | (Inr Gan_field, g1) \<Rightarrow>
          (if count_eq Gan_field PInf \<noteq> 0 then (Inl AssertionError, s, g1)
           else if count_eq Gan_field NaN \<noteq> 0 then (Inl AssertionError, s, g1)
           else (case generate_correlated_Gaussian_via_expdecay e g1 of
                   (Inl err, g2) \<Rightarrow> (Inl err, s, g2)
                 | (Inr Gpn_field, g2) \<Rightarrow>
                     (case compose_K Gpn_field Gan_field of
                        Inl err \<Rightarrow> (Inl err, s, g2)
                      | Inr Ckn_field_am \<Rightarrow> (Inr (Ckn_field_am, Gan_field), s, g2)))))"

section \<open>Instances of the library functions for concrete runs\<close>

text \<open>
  A complementary error function that saturates, as the floating-point one does in the
  tails; a quantile function that is infinite at probability 1 and NaN outside the
  probabilities; the roots of a polynomial of degree at most 2 by the quadratic formula (no
  root for a constant); a generator that counts its draws and returns constant fields; the
  identity for the Fourier transforms (which is the transform of a grid of one cell).
\<close>

definition erfc_sat :: "real \<Rightarrow> real" where
  "erfc_sat x = (if x \<le> - 6 then 2 else if 6 \<le> x then 0 else 1 - x / 6)"

definition quantile_sat :: "real \<Rightarrow> real \<Rightarrow> fl" where
  "quantile_sat v p =
     (if v \<le> 0 \<or> p < 0 \<or> 1 < p then NaN
      else if p = 1 then PInf
      else Fin (v * p / (1 - p)))"

fun roots_quadratic :: "real list \<Rightarrow> complex list" where
  "roots_quadratic [a, b, c] =
     (if a \<noteq> 0 then
        [(complex_of_real (- b) + csqrt (complex_of_real (b ^ 2 - 4 * a * c))) / complex_of_real (2 * a),
         (complex_of_real (- b) - csqrt (complex_of_real (b ^ 2 - 4 * a * c))) / complex_of_real (2 * a)]
      else if b \<noteq> 0 then [complex_of_real (- c / b)]
      else [])"
| "roots_quadratic _ = []"

definition normal_const :: "(nat \<Rightarrow> real) \<Rightarrow> nat \<Rightarrow> nat \<Rightarrow> nat \<Rightarrow> real field \<times> nat" where
  "normal_const sample g h w = (replicate h (replicate w (sample g)), Suc g)"

definition env_demo :: "(nat \<Rightarrow> real) \<Rightarrow> nat env" where
  "env_demo sample =
     \<lparr>np_normal = normal_const sample, np_fft2 = (\<lambda>A. A), np_ifft2 = (\<lambda>A. A),
      ss_erfc = erfc_sat, ss_gammaincinv = quantile_sat, np_roots = roots_quadratic\<rparr>"

text \<open>Samples for the generator: zero at every draw, or a deep-tail value at the first draw.\<close>

definition zero_sample :: "nat \<Rightarrow> real" where
  "zero_sample g = 0"

definition deep_tail_first :: "nat \<Rightarrow> real" where
  "deep_tail_first g = (if g = 0 then 9 else 0)"

text \<open>An engine on a grid of one cell, with unit correlation at its only lag.\<close>

definition engine_one_cell :: kfield where
  "engine_one_cell =
     \<lparr>img_w = 1, img_h = 1, gamma_shape = 5, gamma_field_acf = [[1]],
      gaussian_field_acf = [[1]]\<rparr>"

text \<open>
  A store with a one-dimensional texture ACF at address 0 and a coefficient vector at
  address 1.
\<close>

definition heap_demo :: heap where
  "heap_demo = \<lparr>store = (\<lambda>_. Arr1 [])(0 := Arr1 [3 / 2], 1 := Arr1 [1 / 2, 0, 1]), nxt = 2\<rparr>"

section \<open>Properties: arrays\<close>

lemma sequence_list_Inr: "sequence_list (map (\<lambda>x. Inr (f x)) xs) = Inr (map f xs)"
  by (induction xs) auto

lemma map_field_err_total:
  assumes "\<And>a. f a = Inr (g a)"
  shows "map_field_err f A = Inr (map (map g) A)"
proof -
  have f: "f = (\<lambda>a. Inr (g a))"
    using assms by (simp add: fun_eq_iff)
  show ?thesis
    unfolding map_field_err_def f sequence_list_Inr
    using sequence_list_Inr [of "map g" A] by simp
qed

lemma has_shape_rows: "has_shape A h w \<Longrightarrow> rows A = h"
  by (simp add: has_shape_def rows_def)

lemma has_shape_cols: "has_shape A h w \<Longrightarrow> 0 < h \<Longrightarrow> cols A = w"
  by (cases A) (auto simp: has_shape_def cols_def)

lemma has_shape_cols0: "has_shape A 0 w \<Longrightarrow> cols A = 0"
  by (simp add: has_shape_def cols_def)

lemma has_shape_nth: "has_shape A h w \<Longrightarrow> i < h \<Longrightarrow> length (A ! i) = w"
  by (auto simp: has_shape_def list_all_length)

lemma has_shape_map [simp]: "has_shape (map (map f) A) h w = has_shape A h w"
  by (auto simp: has_shape_def list_all_iff)

lemma bdim_same [simp]: "bdim a a = Some a"
  by (simp add: bdim_def)

lemma bidx_less: "i < n \<Longrightarrow> bidx n i = i"
  by (auto simp: bidx_def)

lemma broadcast2_same_shape:
  assumes A: "has_shape A h w" and B: "has_shape B h w"
  shows "broadcast2 f A B = Inr (map2 (map2 f) A B)"
proof -
  have rA: "rows A = h" and rB: "rows B = h"
    using A B by (simp_all add: has_shape_rows)
  have c: "cols A = cols B"
    using A B by (cases "h = 0") (simp_all add: has_shape_cols has_shape_cols0)
  have lenA: "length A = h" and lenB: "length B = h"
    using A B by (simp_all add: has_shape_def)
  have cw: "0 < h \<Longrightarrow> cols A = w"
    using A by (rule has_shape_cols)
  have "map (\<lambda>i. map (\<lambda>j. f (A ! bidx h i ! bidx (cols A) j) (B ! bidx h i ! bidx (cols A) j))
                 [0..<cols A]) [0..<h] = map2 (map2 f) A B"
  proof (rule nth_equalityI)
    show "length (map (\<lambda>i. map (\<lambda>j. f (A ! bidx h i ! bidx (cols A) j) (B ! bidx h i ! bidx (cols A) j))
                 [0..<cols A]) [0..<h]) = length (map2 (map2 f) A B)"
      by (simp add: lenA lenB)
  next
    fix i
    assume "i < length (map (\<lambda>i. map (\<lambda>j. f (A ! bidx h i ! bidx (cols A) j) (B ! bidx h i ! bidx (cols A) j))
                 [0..<cols A]) [0..<h])"
    then have i: "i < h" by simp
    then have la: "length (A ! i) = w" and lb: "length (B ! i) = w"
      using A B by (simp_all add: has_shape_nth)
    have cA: "cols A = w" using cw i by simp
    have "map (\<lambda>j. f (A ! i ! bidx w j) (B ! i ! bidx w j)) [0..<w] = map2 f (A ! i) (B ! i)"
      by (rule nth_equalityI) (simp_all add: la lb bidx_less)
    then show "map (\<lambda>i. map (\<lambda>j. f (A ! bidx h i ! bidx (cols A) j) (B ! bidx h i ! bidx (cols A) j))
                 [0..<cols A]) [0..<h] ! i = map2 (map2 f) A B ! i"
      using i by (simp add: lenA lenB cA bidx_less)
  qed
  then show ?thesis
    by (simp add: broadcast2_def rA rB c [symmetric])
qed

lemma concat_map2:
  "has_shape A h w \<Longrightarrow> has_shape B h w \<Longrightarrow>
   concat (map2 (map2 f) A B) = map2 f (concat A) (concat B)"
proof (induction A arbitrary: B h)
  case Nil
  then show ?case by simp
next
  case (Cons r A)
  then obtain s B' where B: "B = s # B'"
    by (cases B) (auto simp: has_shape_def)
  from Cons.prems B obtain h' where h: "h = Suc h'" "has_shape A h' w" "has_shape B' h' w"
    "length r = w" "length s = w"
    by (auto simp: has_shape_def)
  then show ?case
    using Cons.IH [of h' B'] by (simp add: B)
qed

lemma np_sum_cells: "np_sum A = sum_list (cells A)"
  by (induction A) (simp_all add: np_sum_def cells_def)

section \<open>Properties: Hermite polynomials\<close>

lemma hermite_order0: "hermite_polynomials x 0 = Inr 1"
  by (simp add: hermite_polynomials_def)

lemma hermite_order1: "hermite_polynomials x 1 = Inr (2 * x)"
  by (simp add: hermite_polynomials_def)

lemma hermite_order2: "hermite_polynomials x 2 = Inr (4 * x ^ 2 - 2)"
  by (simp add: hermite_polynomials_def)

lemma hermite_order3: "hermite_polynomials x 3 = Inr (8 * x ^ 3 - 12 * x)"
  by (simp add: hermite_polynomials_def)

lemma hermite_order4: "hermite_polynomials x 4 = Inr (16 * x ^ 4 - 48 * x ^ 2 + 12)"
  by (simp add: hermite_polynomials_def)

lemma hermite_order5: "hermite_polynomials x 5 = Inr (32 * x ^ 5 - 160 * x ^ 3 + 120)"
  by (simp add: hermite_polynomials_def)

lemma hermite_clamp: "5 < n \<Longrightarrow> hermite_polynomials x n = hermite_polynomials x 5"
  by (simp add: hermite_polynomials_def)

lemma hermite_negative: "n < 0 \<Longrightarrow> hermite_polynomials x n = Inl UnboundLocalError"
  by (simp add: hermite_polynomials_def)

lemma physicist_hermite_2: "physicist_hermite 2 x = 4 * x ^ 2 - 2"
  by (simp add: numeral_2_eq_2 power2_eq_square)

lemma physicist_hermite_3: "physicist_hermite 3 x = 8 * x ^ 3 - 12 * x"
  by (simp add: numeral_3_eq_3 power2_eq_square power3_eq_cube algebra_simps)

lemma physicist_hermite_4: "physicist_hermite 4 x = 16 * x ^ 4 - 48 * x ^ 2 + 12"
proof -
  have "physicist_hermite 4 x = 2 * x * physicist_hermite 3 x - 6 * physicist_hermite 2 x"
    by (simp add: eval_nat_numeral)
  then show ?thesis
    by (simp add: physicist_hermite_3 physicist_hermite_2 power2_eq_square power3_eq_cube
        power4_eq_xxxx algebra_simps)
qed

lemma physicist_hermite_5: "physicist_hermite 5 x = 32 * x ^ 5 - 160 * x ^ 3 + 120 * x"
proof -
  have "physicist_hermite 5 x = 2 * x * physicist_hermite 4 x - 8 * physicist_hermite 3 x"
    by (simp add: eval_nat_numeral)
  then show ?thesis
    by (simp add: physicist_hermite_3 physicist_hermite_4 power2_eq_square power3_eq_cube
        power4_eq_xxxx eval_nat_numeral algebra_simps)
qed

text \<open>
  The polynomials of the recurrence are those of the docstring: the \<open>n\<close>-th derivative of
  \<open>exp(-x^2)\<close> is \<open>(-1)^n H_n(x) exp(-x^2)\<close>.
\<close>

lemma physicist_hermite_rec:
  "physicist_hermite (Suc n) x
   = 2 * x * physicist_hermite n x - 2 * real n * physicist_hermite (n - 1) x"
  by (cases n) simp_all

lemma physicist_hermite_deriv:
  "((\<lambda>x. physicist_hermite n x) has_real_derivative
      (2 * real n * physicist_hermite (n - 1) x)) (at x)"
proof (induction n x rule: physicist_hermite.induct)
  case (1 x)
  then show ?case by simp
next
  case (2 x)
  then show ?case by (auto intro!: derivative_eq_intros)
next
  case (3 n x)
  have "((\<lambda>x. 2 * x * physicist_hermite (Suc n) x - 2 * real (Suc n) * physicist_hermite n x)
          has_real_derivative
          (2 * physicist_hermite (Suc n) x + 2 * x * (2 * real (Suc n) * physicist_hermite n x)
           - 2 * real (Suc n) * (2 * real n * physicist_hermite (n - 1) x))) (at x)"
    using "3.IH"
    by (auto intro!: derivative_eq_intros simp: algebra_simps)
  moreover have "2 * physicist_hermite (Suc n) x + 2 * x * (2 * real (Suc n) * physicist_hermite n x)
           - 2 * real (Suc n) * (2 * real n * physicist_hermite (n - 1) x)
        = 2 * real (Suc (Suc n)) * physicist_hermite (Suc (Suc n) - 1) x"
    by (simp add: physicist_hermite_rec [of n] algebra_simps)
  ultimately show ?case
    by simp
qed

lemma gauss_hermite_deriv:
  "((\<lambda>x. (- 1) ^ n * physicist_hermite n x * exp (- (x ^ 2))) has_real_derivative
      ((- 1) ^ Suc n * physicist_hermite (Suc n) x * exp (- (x ^ 2)))) (at x)"
proof -
  have "((\<lambda>x. (- 1) ^ n * physicist_hermite n x * exp (- (x ^ 2))) has_real_derivative
      ((- 1) ^ n * (2 * real n * physicist_hermite (n - 1) x) * exp (- (x ^ 2))
       + (- 1) ^ n * physicist_hermite n x * (exp (- (x ^ 2)) * (- (2 * x))))) (at x)"
    using physicist_hermite_deriv [of n x]
    by (auto intro!: derivative_eq_intros simp: algebra_simps)
  moreover have "(- 1) ^ n * (2 * real n * physicist_hermite (n - 1) x) * exp (- (x ^ 2))
       + (- 1) ^ n * physicist_hermite n x * (exp (- (x ^ 2)) * (- (2 * x)))
       = (- 1) ^ Suc n * physicist_hermite (Suc n) x * exp (- (x ^ 2))"
    by (simp add: physicist_hermite_rec [of n] algebra_simps)
  ultimately show ?thesis
    by simp
qed

lemma nth_derivative_unique:
  "nth_derivative_is n f g \<Longrightarrow> nth_derivative_is n f g' \<Longrightarrow> g = g'"
proof (induction n arbitrary: g g')
  case 0
  then show ?case by simp
next
  case (Suc n)
  from Suc.prems obtain d d' where
    d: "nth_derivative_is n f d" "\<forall>x. (d has_real_derivative g x) (at x)"
    and d': "nth_derivative_is n f d'" "\<forall>x. (d' has_real_derivative g' x) (at x)"
    by auto
  have "d = d'"
    using Suc.IH d(1) d'(1) by blast
  then have "g x = g' x" for x
    using d(2) d'(2) DERIV_unique by blast
  then show ?case
    by (simp add: fun_eq_iff)
qed

lemma gauss_nth_derivative:
  "nth_derivative_is n (\<lambda>x. exp (- (x ^ 2)))
     (\<lambda>x. (- 1) ^ n * physicist_hermite n x * exp (- (x ^ 2)))"
proof (induction n)
  case 0
  show ?case by simp
next
  case (Suc n)
  then show ?case
    using gauss_hermite_deriv [of n] by (simp only: nth_derivative_is.simps) blast
qed

lemma physicist_hermite_docstring:
  assumes "nth_derivative_is n (\<lambda>y. exp (- (y ^ 2))) g"
  shows "physicist_hermite n x = (- 1) ^ n * exp (x ^ 2) * g x"
proof -
  have g: "g = (\<lambda>x. (- 1) ^ n * physicist_hermite n x * exp (- (x ^ 2)))"
    using nth_derivative_unique [OF assms gauss_nth_derivative] .
  have "exp (x ^ 2) * exp (- (x ^ 2)) = 1"
    by (simp add: exp_minus)
  then have "(- 1) ^ n * exp (x ^ 2) * ((- 1) ^ n * physicist_hermite n x * exp (- (x ^ 2)))
             = ((- 1) ^ n * (- 1) ^ n) * physicist_hermite n x"
    by (simp add: algebra_simps)
  also have "\<dots> = physicist_hermite n x"
    by (simp add: power_mult_distrib [symmetric])
  finally show ?thesis
    by (simp add: g)
qed

text \<open>
  Up to order 4 the evaluator returns the physicists' Hermite polynomial, and an order
  above 5 is evaluated as order 5.
\<close>

lemma hermite_polynomials_upto4:
  assumes "n \<le> 4"
  shows "hermite_polynomials x (int n) = Inr (physicist_hermite n x)"
proof -
  from assms consider "n = 0" | "n = 1" | "n = 2" | "n = 3" | "n = 4" by linarith
  then show ?thesis
    by cases (simp_all add: hermite_order0 hermite_order1 hermite_order2 hermite_order3
        hermite_order4 physicist_hermite_2 physicist_hermite_3 physicist_hermite_4)
qed

lemma hermite_polynomials_order5_offset:
  "hermite_polynomials x 5 = Inr (physicist_hermite 5 x + 120 - 120 * x)"
  by (simp add: hermite_order5 physicist_hermite_5)

text \<open>
  Claim C5.  The evaluator is to return the physicists' Hermite polynomial for the orders
  0 to 5 and to treat a higher order as order 5.  The branch for order 5 has the constant
  120 where the polynomial has the term \<open>120 x\<close>: at \<open>x = 0\<close> the evaluator returns 120 for
  order 5 (and for order 7, clamped to 5), while the Hermite polynomial of order 5 is 0.
\<close>

theorem hermite_order5_wrong_at_zero:
  "hermite_polynomials 0 5 = Inr 120 \<and> hermite_polynomials 0 7 = Inr 120
   \<and> physicist_hermite 5 0 = 0"
  by (simp add: hermite_order5 hermite_clamp physicist_hermite_5)

section \<open>Properties: the coefficient estimator\<close>

lemma hermite_weight_low:
  assumes "n \<le> 2"
  shows "hermite_weight n x = Inr (exp (- (x ^ 2)) * physicist_hermite n x)"
proof -
  from assms consider "n = 0" | "n = 1" | "n = 2" by linarith
  then show ?thesis
    by cases (simp_all add: hermite_weight_def hermite_polynomials_def physicist_hermite_2)
qed

lemma map2_map_left: "map2 f (map g xs) ys = map2 (\<lambda>a b. f (g a) b) xs ys"
  by (induction xs arbitrary: ys) (auto split: list.splits simp: zip_Cons1)

lemma alpha_value:
  assumes x: "has_shape x h w" and t: "has_shape t h w" and n: "n \<le> 2"
  shows "alpha x t n = Inr (alpha_sum n x t)"
proof -
  let ?wt = "\<lambda>xv. exp (- (xv ^ 2)) * physicist_hermite n xv"
  have 1: "map_field_err (hermite_weight n) x = Inr (map (map ?wt) x)"
    by (rule map_field_err_total) (simp add: hermite_weight_low n)
  have 2: "broadcast2 (*) (map (map ?wt) x) t = Inr (map2 (map2 (*)) (map (map ?wt) x) t)"
    by (rule broadcast2_same_shape [where h = h and w = w]) (simp_all add: x t)
  have "cells (map2 (map2 (*)) (map (map ?wt) x) t)
          = map2 (*) (concat (map (map ?wt) x)) (concat t)"
    unfolding cells_def by (rule concat_map2 [where h = h and w = w]) (simp_all add: x t)
  also have "concat (map (map ?wt) x) = map ?wt (concat x)"
    by (simp only: map_concat)
  also have "map2 (*) (map ?wt (concat x)) (concat t) = hermite_terms n x t"
    unfolding hermite_terms_def cells_def by (rule map2_map_left)
  finally have 3: "cells (map2 (map2 (*)) (map (map ?wt) x) t) = hermite_terms n x t" .
  show ?thesis
    by (simp add: alpha_def 1 2 np_sum_cells 3 alpha_sum_def)
qed

lemma coeff_acf_polyn_value:
  assumes "has_shape x h w" and "has_shape t h w"
  shows "coeff_acf_polyn x t = Inr [alpha_sum 2 x t, alpha_sum 1 x t, alpha_sum 0 x t]"
  using alpha_value [OF assms, of 2] alpha_value [OF assms, of 1] alpha_value [OF assms, of 0]
  by (simp add: coeff_acf_polyn_def)

lemma length_cells: "has_shape A h w \<Longrightarrow> length (cells A) = h * w"
  by (induction A arbitrary: h) (auto simp: has_shape_def cells_def)

lemma alpha_sum_mean:
  assumes "has_shape x h w" and "has_shape t h w" and "0 < h * w"
  shows "alpha_sum n x t = (real (h * w)) ^ 2 * alpha_mean_spec n x t"
proof -
  have "length (hermite_terms n x t) = h * w"
    using assms by (simp add: hermite_terms_def length_cells)
  then have "sum_list (hermite_terms n x t) = real (h * w) * sample_mean (hermite_terms n x t)"
    using assms(3) by (simp add: sample_mean_def)
  then show ?thesis
    by (simp add: alpha_sum_def alpha_mean_spec_def power_mult_distrib)
qed

lemma alpha_sum_nonneg: "0 \<le> alpha_sum n x t"
  by (simp add: alpha_sum_def)

text \<open>
  Claim C2, as amended.  For a sample field \<open>x\<close> and its transformed field \<open>t\<close> on the same
  grid of \<open>h w > 0\<close> cells, the estimator returns for the degrees 2, 1, 0 the factor
  \<open>1/(pi n! 2^n)\<close> times the square of the sum (not the mean) over all cells of
  \<open>exp(-x^2) H_n(x) t\<close>; this is \<open>(h w)^2\<close> times the coefficient formed with the sample mean.
\<close>

theorem coeff_acf_polyn_squares_sum:
  assumes "has_shape x h w" and "has_shape t h w" and "0 < h * w"
  shows "coeff_acf_polyn x t = Inr [alpha_sum 2 x t, alpha_sum 1 x t, alpha_sum 0 x t]
         \<and> (\<forall>n. alpha_sum n x t = (real (h * w)) ^ 2 * alpha_mean_spec n x t)"
  using coeff_acf_polyn_value [OF assms(1,2)] alpha_sum_mean [OF assms] by simp

theorem coeff_acf_polyn_squares_sum_witness:
  "has_shape [[0, 0::real]] 1 2 \<and> has_shape [[1, 1::real]] 1 2 \<and> 0 < (1::nat) * 2 \<and>
   coeff_acf_polyn [[0, 0]] [[1, 1]] = Inr [2 / pi, 0, 4 / pi]"
proof -
  have a: "has_shape [[0, 0::real]] 1 2" and b: "has_shape [[1, 1::real]] 1 2"
    by (simp_all add: has_shape_def)
  have c: "0 < (1::nat) * 2" by simp
  have "alpha_sum 2 [[0, 0]] [[1, 1]] = 2 / pi"
    by (simp add: alpha_sum_def hermite_terms_def cells_def physicist_hermite_2)
  moreover have "alpha_sum 1 [[0, 0]] [[1, 1]] = 0"
    by (simp add: alpha_sum_def hermite_terms_def cells_def)
  moreover have "alpha_sum 0 [[0, 0]] [[1, 1]] = 4 / pi"
    by (simp add: alpha_sum_def hermite_terms_def cells_def)
  ultimately show ?thesis
    using coeff_acf_polyn_squares_sum [OF a b c] a b by simp
qed

text \<open>
  Claim C2 as stated fails: on the field \<open>x = [[0, 0]]\<close> with \<open>t = [[1, 1]]\<close> the estimator
  does not return the coefficients formed with the sample mean (its degree-0 coefficient is
  \<open>4/pi\<close>, the one with the mean is \<open>1/pi\<close>).
\<close>

theorem coeff_acf_polyn_not_mean:
  "coeff_acf_polyn [[0, 0]] [[1, 1]]
     \<noteq> Inr [alpha_mean_spec 2 [[0, 0]] [[1, 1]], alpha_mean_spec 1 [[0, 0]] [[1, 1]],
            alpha_mean_spec 0 [[0, 0]] [[1, 1]]]"
proof -
  have "coeff_acf_polyn [[0, 0]] [[1, 1]]
        = Inr [alpha_sum 2 [[0, 0]] [[1, 1]], alpha_sum 1 [[0, 0]] [[1, 1]],
               alpha_sum 0 [[0, 0]] [[1, 1]]]"
    by (rule coeff_acf_polyn_value [where h = 1 and w = 2]) (simp_all add: has_shape_def)
  moreover have "alpha_sum 0 [[0, 0]] [[1, 1]] = 4 / pi"
    by (simp add: alpha_sum_def hermite_terms_def cells_def)
  moreover have "alpha_mean_spec 0 [[0, 0]] [[1, 1]] = 1 / pi"
    by (simp add: alpha_mean_spec_def hermite_terms_def cells_def sample_mean_def)
  ultimately show ?thesis by simp
qed

lemma polyval3: "polyval [a, b, c] g = (a * g + b) * g + c"
  by (simp add: polyval_def)

lemma coeffs_field_value:
  assumes "has_shape x h w" and "has_shape t h w" and "alpha_sum 0 x t \<noteq> 0"
  shows "coeffs_field x t
         = Inr [alpha_sum 2 x t / alpha_sum 0 x t, alpha_sum 1 x t / alpha_sum 0 x t, 1]"
  using coeff_acf_polyn_value [OF assms(1,2)] assms(3)
  by (simp add: coeffs_field_def normalize_coeffs_def)

lemma alpha_sum_one_cell:
  "alpha_sum n [[xv]] [[tv]]
   = (exp (- (xv ^ 2)) * physicist_hermite n xv * tv) ^ 2 / (pi * fact n * 2 ^ n)"
  by (simp add: alpha_sum_def hermite_terms_def cells_def)

text \<open>
  Claim C1, as amended.  The estimator returns \<open>[a2, a1, a0]\<close> with
  \<open>a_n = alpha_sum n x t\<close>.  When \<open>a0\<close> is not zero, the vector normalised by its last entry
  is exactly \<open>[a2/a0, a1/a0, 1]\<close>, with non-negative entries: its constant term is 1, so the
  polynomial is 1 at Gaussian-ACF value 0; at Gaussian-ACF value 1 it is
  \<open>1 + a2/a0 + a1/a0\<close>, which is 1 exactly when \<open>a2 = a1 = 0\<close>.
\<close>

theorem coeffs_field_constant_term_one:
  assumes "has_shape x h w" and "has_shape t h w" and "alpha_sum 0 x t \<noteq> 0"
  shows "coeff_acf_polyn x t = Inr [alpha_sum 2 x t, alpha_sum 1 x t, alpha_sum 0 x t]
         \<and> coeffs_field x t
             = Inr [alpha_sum 2 x t / alpha_sum 0 x t, alpha_sum 1 x t / alpha_sum 0 x t, 1]
         \<and> 0 \<le> alpha_sum 2 x t / alpha_sum 0 x t
         \<and> 0 \<le> alpha_sum 1 x t / alpha_sum 0 x t
         \<and> polyval [alpha_sum 2 x t / alpha_sum 0 x t, alpha_sum 1 x t / alpha_sum 0 x t, 1] 0 = 1
         \<and> polyval [alpha_sum 2 x t / alpha_sum 0 x t, alpha_sum 1 x t / alpha_sum 0 x t, 1] 1
             = 1 + alpha_sum 2 x t / alpha_sum 0 x t + alpha_sum 1 x t / alpha_sum 0 x t
         \<and> (polyval [alpha_sum 2 x t / alpha_sum 0 x t, alpha_sum 1 x t / alpha_sum 0 x t, 1] 1 = 1
              \<longleftrightarrow> alpha_sum 2 x t = 0 \<and> alpha_sum 1 x t = 0)"
proof -
  let ?c2 = "alpha_sum 2 x t / alpha_sum 0 x t" and ?c1 = "alpha_sum 1 x t / alpha_sum 0 x t"
  have nn: "0 \<le> ?c2" "0 \<le> ?c1"
    by (simp_all add: alpha_sum_nonneg)
  have z: "?c2 = 0 \<longleftrightarrow> alpha_sum 2 x t = 0" "?c1 = 0 \<longleftrightarrow> alpha_sum 1 x t = 0"
    using assms(3) by simp_all
  have v1: "polyval [?c2, ?c1, 1] 1 = 1 + ?c2 + ?c1" and v0: "polyval [?c2, ?c1, 1] 0 = 1"
    by (simp_all add: polyval3)
  have key: "1 + c2 + c1 = 1 \<longleftrightarrow> c2 = 0 \<and> c1 = 0" if "0 \<le> c2" "0 \<le> c1" for c2 c1 :: real
  proof
    assume "1 + c2 + c1 = 1"
    then show "c2 = 0 \<and> c1 = 0"
      using that by (intro conjI) linarith+
  next
    assume "c2 = 0 \<and> c1 = 0"
    then show "1 + c2 + c1 = 1"
      by simp
  qed
  have "polyval [?c2, ?c1, 1] 1 = 1 \<longleftrightarrow> ?c2 = 0 \<and> ?c1 = 0"
    unfolding v1 by (rule key [OF nn])
  then have iff: "polyval [?c2, ?c1, 1] 1 = 1 \<longleftrightarrow> alpha_sum 2 x t = 0 \<and> alpha_sum 1 x t = 0"
    unfolding z .
  show ?thesis
    using coeff_acf_polyn_value [OF assms(1,2)] coeffs_field_value [OF assms] nn v0 v1 iff
    by blast
qed

theorem coeffs_field_constant_term_one_witness:
  "has_shape [[0::real]] 1 1 \<and> has_shape [[1::real]] 1 1 \<and> alpha_sum 0 [[0]] [[1]] \<noteq> 0
   \<and> coeff_acf_polyn [[0]] [[1]] = Inr [1 / (2 * pi), 0, 1 / pi]
   \<and> coeffs_field [[0]] [[1]] = Inr [1 / 2, 0, 1]
   \<and> polyval [1 / 2, 0, 1] 0 = 1 \<and> polyval [1 / 2, 0, 1] 1 = 3 / 2"
proof -
  have s: "has_shape [[0::real]] 1 1" "has_shape [[1::real]] 1 1"
    by (simp_all add: has_shape_def)
  have nz: "alpha_sum 0 [[0]] [[1]] \<noteq> 0"
    by (simp add: alpha_sum_one_cell)
  have a: "alpha_sum 2 [[0]] [[1]] = 1 / (2 * pi)" "alpha_sum (Suc 0) [[0]] [[1]] = 0"
    "alpha_sum 0 [[0]] [[1]] = 1 / pi"
    by (simp_all add: alpha_sum_one_cell physicist_hermite_2)
  show ?thesis
    using coeffs_field_constant_term_one [OF s nz] s nz
    by (simp add: a polyval3)
qed

text \<open>
  Claim C1 as stated fails: for the one-cell sample field \<open>[[0]]\<close> with transformed value 1
  the normalised vector is \<open>[1/2, 0, 1]\<close>, and the polynomial is \<open>3/2\<close> at Gaussian-ACF
  value 1, not 1 within \<open>1e-6\<close>.
\<close>

theorem coeffs_field_sum_not_one:
  "coeffs_field [[0]] [[1]] = Inr [1 / 2, 0, 1]
   \<and> \<not> \<bar>polyval [1 / 2, 0, 1] 1 - 1\<bar> \<le> 1 / 1000000"
proof -
  have s: "has_shape [[0::real]] 1 1" "has_shape [[1::real]] 1 1"
    by (simp_all add: has_shape_def)
  have nz: "alpha_sum 0 [[0]] [[1]] \<noteq> 0"
    by (simp add: alpha_sum_one_cell)
  show ?thesis
    using coeffs_field_value [OF s nz]
    by (simp add: alpha_sum_one_cell physicist_hermite_2 polyval3)
qed

section \<open>Properties: the non-linear transform\<close>

lemma nine_over_sqrt2: "6 \<le> 9 / sqrt 2"
proof -
  have "sqrt 2 \<le> 3 / 2"
    by (rule real_le_lsqrt) (simp_all add: power2_eq_square)
  then show ?thesis
    by (simp add: le_divide_eq)
qed

lemma mnlt_sat_0: "mnlt erfc_sat quantile_sat 0 5 = Fin 5"
  by (simp add: mnlt_def erfc_sat_def quantile_sat_def)

lemma mnlt_sat_9: "mnlt erfc_sat quantile_sat 9 5 = PInf"
  using nine_over_sqrt2 by (simp add: mnlt_def erfc_sat_def quantile_sat_def)

section \<open>Properties: the composer\<close>

lemma abs_product_cell:
  "0 \<le> t \<Longrightarrow> np_abs (cmul z (np_sqrt (Fin t))) = Fin (cmod z * sqrt t)"
  by (simp add: norm_mult)

lemma map2_map_right: "map2 f xs (map g ys) = map2 (\<lambda>a b. f a (g b)) xs ys"
  by (induction xs ys rule: list_induct2') simp_all

lemma map_map2: "map g (map2 f xs ys) = map2 (\<lambda>a b. g (f a b)) xs ys"
  by (induction xs ys rule: list_induct2') simp_all

lemma map2_cong_set:
  "(\<And>a b. a \<in> set xs \<Longrightarrow> b \<in> set ys \<Longrightarrow> f a b = g a b) \<Longrightarrow> map2 f xs ys = map2 g xs ys"
  by (induction xs ys rule: list_induct2') simp_all

lemma field_map2_right:
  "map2 (map2 f) A (map (map g) B) = map2 (map2 (\<lambda>a b. f a (g b))) A B"
  by (induction A B rule: list_induct2') (auto simp: map2_map_right)

lemma field_map_map2:
  "map (map g) (map2 (map2 f) A B) = map2 (map2 (\<lambda>a b. g (f a b))) A B"
  by (induction A B rule: list_induct2') (auto simp: map_map2)

text \<open>
  Claim C8.  For a complex speckle field and a finite, non-negative real texture field of
  the same shape, the composer returns, cell by cell, the modulus of the speckle times the
  square root of the texture: a finite non-negative real.  In particular the absolute value
  of the product, which is what the program computes, is the product of the absolute value
  and the square root.
\<close>

theorem compose_K_amplitude:
  assumes S: "has_shape S h w" and T: "has_shape T h w"
    and nn: "\<forall>t \<in> set (cells T). 0 \<le> t"
  shows "compose_K S (map (map Fin) T) = Inr (map2 (map2 (\<lambda>z t. Fin (cmod z * sqrt t))) S T)
         \<and> (\<forall>z. \<forall>t \<in> set (cells T). np_abs (cmul z (np_sqrt (Fin t))) = Fin (cmod z * sqrt t)
                \<and> 0 \<le> cmod z * sqrt t)"
proof -
  have 1: "broadcast2 cmul S (map (map np_sqrt) (map (map Fin) T))
           = Inr (map2 (map2 cmul) S (map (map np_sqrt) (map (map Fin) T)))"
    by (rule broadcast2_same_shape [where h = h and w = w]) (simp_all add: S T)
  have "map (map np_sqrt) (map (map Fin) T) = map (map (\<lambda>t. np_sqrt (Fin t))) T"
    by (simp add: o_def)
  then have 2: "map (map np_abs) (map2 (map2 cmul) S (map (map np_sqrt) (map (map Fin) T)))
           = map2 (map2 (\<lambda>z t. np_abs (cmul z (np_sqrt (Fin t))))) S T"
    by (simp only: field_map_map2 field_map2_right)
  have 3: "map2 (map2 (\<lambda>z t. np_abs (cmul z (np_sqrt (Fin t))))) S T
           = map2 (map2 (\<lambda>z t. Fin (cmod z * sqrt t))) S T"
  proof (rule map2_cong_set)
    fix r q assume "r \<in> set S" "q \<in> set T"
    then have "\<forall>t \<in> set q. 0 \<le> t"
      using nn by (auto simp: cells_def)
    then show "map2 (\<lambda>z t. np_abs (cmul z (np_sqrt (Fin t)))) r q
               = map2 (\<lambda>z t. Fin (cmod z * sqrt t)) r q"
      by (intro map2_cong_set) (auto simp: norm_mult not_less)
  qed
  have "compose_K S (map (map Fin) T) = Inr (map2 (map2 (\<lambda>z t. Fin (cmod z * sqrt t))) S T)"
    unfolding compose_K_def 1 by (simp only: sum.case 2 3)
  then show ?thesis
    using nn by (auto simp: norm_mult not_less)
qed

theorem compose_K_amplitude_witness:
  "has_shape [[Complex 3 4]] 1 1 \<and> has_shape [[4::real]] 1 1 \<and> (0::real) \<le> 4
   \<and> compose_K [[Complex 3 4]] [[Fin 4]] = Inr [[Fin 10]]"
proof -
  have a: "has_shape [[Complex 3 4]] 1 1" and b: "has_shape [[4::real]] 1 1"
    by (simp_all add: has_shape_def)
  have c: "\<forall>t \<in> set (cells [[4::real]]). 0 \<le> t"
    by (simp add: cells_def)
  have "cmod (Complex 3 4) = 5"
    by (simp add: cmod_def real_sqrt_unique)
  moreover have "sqrt 4 = 2"
    by (simp add: real_sqrt_unique)
  ultimately show ?thesis
    using compose_K_amplitude [OF a b c] a b c by simp
qed

section \<open>Properties: the frame generator\<close>

text \<open>
  Claim C9.  Whatever a call of the frame generator returns or raises, the engine it hands
  back is the engine it was given (all five fields), and the call does not depend on the
  root solver: the cached Gaussian ACF is reused and no root is computed again.
\<close>

theorem generate_keeps_engine:
  "fst (snd (generate_K_distributed_noise_fast e s g)) = s
   \<and> generate_K_distributed_noise_fast (e\<lparr>np_roots := r\<rparr>) s g
       = generate_K_distributed_noise_fast e s g"
proof
  show "fst (snd (generate_K_distributed_noise_fast e s g)) = s"
    by (simp add: generate_K_distributed_noise_fast_def split: prod.splits sum.splits)
next
  have t: "texture_field (e\<lparr>np_roots := r\<rparr>) s g = texture_field e s g"
    by (simp add: texture_field_def mnlt_field_def split: prod.splits sum.splits)
  have k: "generate_correlated_Gaussian_via_expdecay (e\<lparr>np_roots := r\<rparr>) g'
           = generate_correlated_Gaussian_via_expdecay e g'" for g'
    by (simp add: generate_correlated_Gaussian_via_expdecay_def split: prod.splits sum.splits)
  show "generate_K_distributed_noise_fast (e\<lparr>np_roots := r\<rparr>) s g
       = generate_K_distributed_noise_fast e s g"
    unfolding generate_K_distributed_noise_fast_def t k by (rule refl)
qed

section \<open>Properties: the inverter\<close>

lemma store_write_same [simp]: "store (write_arr h p a) p = a"
  by (simp add: write_arr_def)

lemma store_write_other [simp]: "q \<noteq> p \<Longrightarrow> store (write_arr h p a) q = store h q"
  by (simp add: write_arr_def)

lemma nxt_write [simp]: "nxt (write_arr h p a) = nxt h"
  by (simp add: write_arr_def)

lemma solve_cell_frame:
  "p \<noteq> p_copy \<Longrightarrow> store (snd (solve_cell roots p_coeff p_copy t h)) p = store h p"
  by (simp add: solve_cell_def Let_def split: ndarray.splits list.splits)

lemma solve_cell_nxt: "nxt (snd (solve_cell roots p_coeff p_copy t h)) = nxt h"
  by (simp add: solve_cell_def Let_def split: ndarray.splits list.splits)

lemma solve_cell_inv:
  assumes inv: "copy_inv h0 p_copy co h" and pc: "store h0 p_coeff = Arr1 co"
    and ne: "p_coeff \<noteq> p_copy" and co: "co \<noteq> []"
  shows "fst (solve_cell roots p_coeff p_copy t h) = cell_result roots co t"
    and "copy_inv h0 p_copy co (snd (solve_cell roots p_coeff p_copy t h))"
proof -
  from inv obtain u where u: "store h p_copy = Arr1 (co[length co - 1 := u])"
    and fr: "\<And>p. p \<noteq> p_copy \<Longrightarrow> store h p = store h0 p" and nx: "nxt h = nxt h0"
    by (auto simp: copy_inv_def)
  have orig: "store h p_coeff = Arr1 co"
    using fr [OF ne] pc by simp
  let ?c = "co[length co - 1 := last co - t]"
  let ?h' = "write_arr h p_copy (Arr1 ?c)"
  have eq: "solve_cell roots p_coeff p_copy t h
            = (case roots ?c of [] \<Rightarrow> (Inl IndexError, ?h') | z # _ \<Rightarrow> (Inr z, ?h'))"
    using co by (simp add: solve_cell_def orig u Let_def split: list.splits)
  show "fst (solve_cell roots p_coeff p_copy t h) = cell_result roots co t"
    by (simp add: eq cell_result_def has_root_def first_root_def split: list.splits)
  have "snd (solve_cell roots p_coeff p_copy t h) = ?h'"
    by (simp add: eq split: list.splits)
  moreover have "copy_inv h0 p_copy co ?h'"
    using fr nx by (auto simp: copy_inv_def)
  ultimately show "copy_inv h0 p_copy co (snd (solve_cell roots p_coeff p_copy t h))"
    by simp
qed


lemma cell_result_cases:
  "cell_result roots co t = Inl e \<Longrightarrow> e = IndexError \<and> \<not> has_root roots co t"
  "cell_result roots co t = Inr z \<Longrightarrow> z = first_root roots co t \<and> has_root roots co t"
  by (auto simp: cell_result_def split: if_splits)

lemma solve_loop1_frame:
  "p \<noteq> p_copy \<Longrightarrow>
   store (snd (solve_loop1 roots p_gamma p_coeff p_copy rs h acc)) p = store h p"
proof (induction rs arbitrary: h acc)
  case Nil
  then show ?case by simp
next
  case (Cons r rs)
  obtain res h' where c: "solve_cell roots p_coeff p_copy (read1 h p_gamma r) h = (res, h')"
    by (cases "solve_cell roots p_coeff p_copy (read1 h p_gamma r) h")
  have "store h' p = store h p"
    using solve_cell_frame [OF Cons.prems, of roots p_coeff "read1 h p_gamma r" h] c by simp
  then show ?case
    using Cons.IH [OF Cons.prems] c by (cases res) simp_all
qed

lemma solve_loop1_value:
  assumes pc: "store h0 p_coeff = Arr1 co" and pg: "store h0 p_gamma = Arr1 g"
    and ne: "p_coeff \<noteq> p_copy" "p_gamma \<noteq> p_copy" and co: "co \<noteq> []"
  shows "copy_inv h0 p_copy co h \<Longrightarrow>
         fst (solve_loop1 roots p_gamma p_coeff p_copy rs h acc)
         = (if \<forall>r \<in> set rs. has_root roots co (g ! r)
            then Inr (fold (\<lambda>r a. a[r := first_root roots co (g ! r)]) rs acc)
            else Inl IndexError)"
proof (induction rs arbitrary: h acc)
  case Nil
  then show ?case by simp
next
  case (Cons r rs)
  have rd: "read1 h p_gamma r = g ! r"
    using Cons.prems ne(2) pg by (simp add: read1_def copy_inv_def)
  obtain res h' where c: "solve_cell roots p_coeff p_copy (g ! r) h = (res, h')"
    by (cases "solve_cell roots p_coeff p_copy (g ! r) h")
  have res: "res = cell_result roots co (g ! r)" and inv': "copy_inv h0 p_copy co h'"
    using solve_cell_inv [OF Cons.prems pc ne(1) co, of roots "g ! r"] c by simp_all
  show ?case
  proof (cases res)
    case (Inl e)
    then show ?thesis
      using c rd res cell_result_cases(1) [of roots co "g ! r" e] by auto
  next
    case (Inr z)
    then show ?thesis
      using c rd res cell_result_cases(2) [of roots co "g ! r" z] Cons.IH [OF inv'] by auto
  qed
qed

lemma fold_update_upt:
  "k \<le> length acc \<Longrightarrow>
   fold (\<lambda>r a. a[r := f r]) [0..<k] acc = map f [0..<k] @ drop k acc"
proof (induction k)
  case 0
  then show ?case by simp
next
  case (Suc k)
  then have k: "k < length acc" by simp
  have "fold (\<lambda>r a. a[r := f r]) [0..<Suc k] acc = (map f [0..<k] @ drop k acc)[k := f k]"
    using Suc by simp
  also have "\<dots> = map f [0..<k] @ (drop k acc)[0 := f k]"
    by (simp add: list_update_append)
  also have "(drop k acc)[0 := f k] = f k # drop (Suc k) acc"
    using k by (simp add: Cons_nth_drop_Suc [symmetric])
  finally show ?case by simp
qed

lemma fold_update_all:
  "length acc = length g \<Longrightarrow>
   fold (\<lambda>r a. a[r := F (g ! r)]) [0..<length g] acc = map F g"
proof -
  assume len: "length acc = length g"
  have "map (\<lambda>r. F (g ! r)) [0..<length g] = map F g"
    by (rule nth_equalityI) simp_all
  then show ?thesis
    using fold_update_upt [of "length g" acc "\<lambda>r. F (g ! r)"] len by simp
qed


lemma solve_loop_theta_frame:
  "p \<noteq> p_copy \<Longrightarrow>
   store (snd (solve_loop_theta roots p_gamma p_coeff p_copy r thetas h acc)) p = store h p"
proof (induction thetas arbitrary: h acc)
  case Nil
  then show ?case by simp
next
  case (Cons theta thetas)
  obtain res h' where
    c: "solve_cell roots p_coeff p_copy (read2 h p_gamma r theta) h = (res, h')"
    by (cases "solve_cell roots p_coeff p_copy (read2 h p_gamma r theta) h")
  have "store h' p = store h p"
    using solve_cell_frame [OF Cons.prems, of roots p_coeff "read2 h p_gamma r theta" h] c
    by simp
  then show ?case
    using Cons.IH [OF Cons.prems] c by (cases res) simp_all
qed

lemma solve_loop2_frame:
  "p \<noteq> p_copy \<Longrightarrow>
   store (snd (solve_loop2 roots p_gamma p_coeff p_copy w rs h acc)) p = store h p"
proof (induction rs arbitrary: h acc)
  case Nil
  then show ?case by simp
next
  case (Cons r rs)
  obtain res h' where
    c: "solve_loop_theta roots p_gamma p_coeff p_copy r [0..<w] h acc = (res, h')"
    by (cases "solve_loop_theta roots p_gamma p_coeff p_copy r [0..<w] h acc")
  have "store h' p = store h p"
    using solve_loop_theta_frame [OF Cons.prems, of roots p_gamma p_coeff r "[0..<w]" h acc] c
    by simp
  then show ?case
    using Cons.IH [OF Cons.prems] c by (cases res) simp_all
qed

lemma solve_loop_theta_value:
  assumes pc: "store h0 p_coeff = Arr1 co" and pg: "store h0 p_gamma = Arr2 G"
    and ne: "p_coeff \<noteq> p_copy" "p_gamma \<noteq> p_copy" and co: "co \<noteq> []"
  shows "copy_inv h0 p_copy co h \<Longrightarrow>
         fst (solve_loop_theta roots p_gamma p_coeff p_copy r thetas h acc)
         = (if \<forall>theta \<in> set thetas. has_root roots co (G ! r ! theta)
            then Inr (fold (\<lambda>theta a. a[r := (a ! r)[theta := first_root roots co (G ! r ! theta)]])
                        thetas acc)
            else Inl IndexError)
         \<and> copy_inv h0 p_copy co
             (snd (solve_loop_theta roots p_gamma p_coeff p_copy r thetas h acc))"
proof (induction thetas arbitrary: h acc)
  case Nil
  then show ?case by simp
next
  case (Cons theta thetas)
  have rd: "read2 h p_gamma r theta = G ! r ! theta"
    using Cons.prems ne(2) pg by (simp add: read2_def copy_inv_def)
  obtain res h' where c: "solve_cell roots p_coeff p_copy (G ! r ! theta) h = (res, h')"
    by (cases "solve_cell roots p_coeff p_copy (G ! r ! theta) h")
  have res: "res = cell_result roots co (G ! r ! theta)" and inv': "copy_inv h0 p_copy co h'"
    using solve_cell_inv [OF Cons.prems pc ne(1) co, of roots "G ! r ! theta"] c by simp_all
  show ?case
  proof (cases res)
    case (Inl e)
    then show ?thesis
      using c rd res inv' cell_result_cases(1) [of roots co "G ! r ! theta" e] by auto
  next
    case (Inr z)
    then show ?thesis
      using c rd res cell_result_cases(2) [of roots co "G ! r ! theta" z] Cons.IH [OF inv']
      by auto
  qed
qed

lemma solve_loop2_value:
  assumes pc: "store h0 p_coeff = Arr1 co" and pg: "store h0 p_gamma = Arr2 G"
    and ne: "p_coeff \<noteq> p_copy" "p_gamma \<noteq> p_copy" and co: "co \<noteq> []"
  shows "copy_inv h0 p_copy co h \<Longrightarrow>
         fst (solve_loop2 roots p_gamma p_coeff p_copy w rs h acc)
         = (if \<forall>r \<in> set rs. \<forall>theta \<in> set [0..<w]. has_root roots co (G ! r ! theta)
            then Inr (fold (\<lambda>r. fold (\<lambda>theta a.
                              a[r := (a ! r)[theta := first_root roots co (G ! r ! theta)]])
                            [0..<w]) rs acc)
            else Inl IndexError)"
proof (induction rs arbitrary: h acc)
  case Nil
  then show ?case by simp
next
  case (Cons r rs)
  obtain res h' where
    c: "solve_loop_theta roots p_gamma p_coeff p_copy r [0..<w] h acc = (res, h')"
    by (cases "solve_loop_theta roots p_gamma p_coeff p_copy r [0..<w] h acc")
  note v = solve_loop_theta_value [OF pc pg ne co Cons.prems, of roots r "[0..<w]" acc]
  have inv': "copy_inv h0 p_copy co h'"
    using v c by simp
  show ?case
  proof (cases "\<forall>theta \<in> set [0..<w]. has_root roots co (G ! r ! theta)")
    case True
    then have "res = Inr (fold (\<lambda>theta a.
                  a[r := (a ! r)[theta := first_root roots co (G ! r ! theta)]]) [0..<w] acc)"
      using v c by simp
    then show ?thesis
      using c True Cons.IH [OF inv'] by simp
  next
    case False
    then have "res = Inl IndexError"
      using v c by simp
    then show ?thesis
      using c False by simp
  qed
qed

lemma fold_row_update_upt:
  "r < length acc \<Longrightarrow> k \<le> length (acc ! r) \<Longrightarrow>
   fold (\<lambda>theta a. a[r := (a ! r)[theta := f theta]]) [0..<k] acc
   = acc[r := map f [0..<k] @ drop k (acc ! r)]"
proof (induction k)
  case 0
  then show ?case by simp
next
  case (Suc k)
  then have k: "k < length (acc ! r)" by simp
  have "(map f [0..<k] @ drop k (acc ! r))[k := f k]
        = map f [0..<k] @ (drop k (acc ! r))[0 := f k]"
    by (simp add: list_update_append)
  also have "(drop k (acc ! r))[0 := f k] = f k # drop (Suc k) (acc ! r)"
    using k by (simp add: Cons_nth_drop_Suc [symmetric])
  finally have "(map f [0..<k] @ drop k (acc ! r))[k := f k]
                = map f [0..<Suc k] @ drop (Suc k) (acc ! r)"
    by simp
  then show ?case
    using Suc by simp
qed

lemma fold_row_update_all:
  "r < length acc \<Longrightarrow> length (acc ! r) = w \<Longrightarrow>
   fold (\<lambda>theta a. a[r := (a ! r)[theta := f theta]]) [0..<w] acc = acc[r := map f [0..<w]]"
  using fold_row_update_upt [of r acc w f] by simp

lemma fold_rows_upt:
  "k \<le> length acc \<Longrightarrow> list_all (\<lambda>row. length row = w) acc \<Longrightarrow>
   fold (\<lambda>r. fold (\<lambda>theta a. a[r := (a ! r)[theta := f r theta]]) [0..<w]) [0..<k] acc
   = map (\<lambda>r. map (f r) [0..<w]) [0..<k] @ drop k acc"
proof (induction k)
  case 0
  then show ?case by simp
next
  case (Suc k)
  then have k: "k < length acc" by simp
  let ?a = "map (\<lambda>r. map (f r) [0..<w]) [0..<k] @ drop k acc"
  have len: "k < length ?a"
    using k by simp
  have row: "length (?a ! k) = w"
    using k Suc.prems(2) by (simp add: nth_append list_all_length)
  have "fold (\<lambda>r. fold (\<lambda>theta a. a[r := (a ! r)[theta := f r theta]]) [0..<w]) [0..<Suc k] acc
        = fold (\<lambda>theta a. a[k := (a ! k)[theta := f k theta]]) [0..<w] ?a"
    using Suc by simp
  also have "\<dots> = ?a[k := map (f k) [0..<w]]"
    by (rule fold_row_update_all [OF len row])
  also have "\<dots> = map (\<lambda>r. map (f r) [0..<w]) [0..<k] @ (drop k acc)[0 := map (f k) [0..<w]]"
    by (simp add: list_update_append)
  also have "(drop k acc)[0 := map (f k) [0..<w]] = map (f k) [0..<w] # drop (Suc k) acc"
    using k by (simp add: Cons_nth_drop_Suc [symmetric])
  finally show ?case by simp
qed

lemma fold_rows_all:
  assumes G: "has_shape G n w" and acc: "has_shape acc n w"
  shows "fold (\<lambda>r. fold (\<lambda>theta a. a[r := (a ! r)[theta := F (G ! r ! theta)]]) [0..<w])
           [0..<n] acc = map (map F) G"
proof -
  have "map (\<lambda>r. map (\<lambda>theta. F (G ! r ! theta)) [0..<w]) [0..<n] = map (map F) G"
  proof (rule nth_equalityI)
    show "length (map (\<lambda>r. map (\<lambda>theta. F (G ! r ! theta)) [0..<w]) [0..<n])
          = length (map (map F) G)"
      using G by (simp add: has_shape_def)
  next
    fix i assume "i < length (map (\<lambda>r. map (\<lambda>theta. F (G ! r ! theta)) [0..<w]) [0..<n])"
    then have i: "i < n" by simp
    then have l: "length (G ! i) = w"
      using G by (simp add: has_shape_nth)
    have "map (\<lambda>theta. F (G ! i ! theta)) [0..<w] = map F (G ! i)"
      by (rule nth_equalityI) (simp_all add: l)
    then show "map (\<lambda>r. map (\<lambda>theta. F (G ! r ! theta)) [0..<w]) [0..<n] ! i
               = map (map F) G ! i"
      using i G by (simp add: has_shape_def)
  qed
  then show ?thesis
    using fold_rows_upt [of n acc w "\<lambda>r theta. F (G ! r ! theta)"] acc
    by (simp add: has_shape_def)
qed


lemma rect_has_shape: "rect G \<Longrightarrow> has_shape G (rows G) (cols G)"
  by (simp add: rect_def has_shape_def rows_def)

lemma has_shape_replicate [simp]: "has_shape (replicate n (replicate w c)) n w"
  by (simp add: has_shape_def list_all_length)

lemma copy_inv_alloc:
  assumes "co \<noteq> []" and "store h p_coeff = Arr1 co"
  shows "copy_inv (snd (alloc h (store h p_coeff))) (nxt h) co (snd (alloc h (store h p_coeff)))"
proof -
  have "co[length co - 1 := last co] = co"
    using assms(1) by (simp add: last_conv_nth)
  then have "store (snd (alloc h (store h p_coeff))) (nxt h) = Arr1 (co[length co - 1 := last co])"
    using assms(2) by (simp add: alloc_def)
  then show ?thesis
    unfolding copy_inv_def by blast
qed

lemma all_cells_field:
  assumes "has_shape G n w"
  shows "(\<forall>r \<in> set [0..<n]. \<forall>theta \<in> set [0..<w]. P (G ! r ! theta))
         \<longleftrightarrow> (\<forall>c \<in> set (concat G). P c)"
proof
  assume a: "\<forall>r \<in> set [0..<n]. \<forall>theta \<in> set [0..<w]. P (G ! r ! theta)"
  show "\<forall>c \<in> set (concat G). P c"
  proof
    fix c assume "c \<in> set (concat G)"
    then obtain row where row: "row \<in> set G" "c \<in> set row" by auto
    then obtain r where r: "r < length G" "G ! r = row"
      by (auto simp: in_set_conv_nth)
    from row(2) obtain j where j: "j < length row" "row ! j = c"
      by (auto simp: in_set_conv_nth)
    have "length G = n" "length row = w"
      using assms r by (auto simp: has_shape_def list_all_length)
    then show "P c"
      using a r j by auto
  qed
next
  assume a: "\<forall>c \<in> set (concat G). P c"
  show "\<forall>r \<in> set [0..<n]. \<forall>theta \<in> set [0..<w]. P (G ! r ! theta)"
  proof (intro ballI)
    fix r theta assume "r \<in> set [0..<n]" "theta \<in> set [0..<w]"
    then have r: "r < length G" and t: "theta < length (G ! r)"
      using assms by (auto simp: has_shape_def list_all_length)
    then have "G ! r ! theta \<in> set (concat G)"
      by (metis in_set_conv_nth set_concat UN_I)
    then show "P (G ! r ! theta)"
      using a by blast
  qed
qed

lemma solve_acf_polyn_value:
  assumes lt: "p_gamma < nxt h" "p_coeff < nxt h"
    and pc: "store h p_coeff = Arr1 co" and co: "co \<noteq> []"
    and pg: "store h p_gamma = t" and rk: "rank12 t"
  shows "fst (solve_acf_polyn roots h p_gamma p_coeff)
         = (if \<forall>c \<in> set (cells_nd t). has_root roots co c
            then Inr (map_nd (first_root roots co) t) else Inl IndexError)"
proof -
  let ?h1 = "h\<lparr>store := (store h)(nxt h := store h p_coeff), nxt := Suc (nxt h)\<rparr>"
  have al: "alloc h (store h p_coeff) = (nxt h, ?h1)"
    by (simp add: alloc_def)
  have ne: "p_coeff \<noteq> nxt h" "p_gamma \<noteq> nxt h"
    using lt by simp_all
  have pc1: "store ?h1 p_coeff = Arr1 co" and pg1: "store ?h1 p_gamma = t"
    using ne pc pg by (simp_all add: alloc_def)
  have inv: "copy_inv ?h1 (nxt h) co ?h1"
    using copy_inv_alloc [OF co pc] by (simp add: alloc_def)
  show ?thesis
  proof (cases t)
    case (Arr1 g)
    have pg1': "store ?h1 p_gamma = Arr1 g"
      using pg1 Arr1 by simp
    obtain res h' where c: "solve_loop1 roots p_gamma p_coeff (nxt h) [0..<length g] ?h1
                              (replicate (length g) 0) = (res, h')"
      by (cases "solve_loop1 roots p_gamma p_coeff (nxt h) [0..<length g] ?h1
                   (replicate (length g) 0)")
    have "(\<forall>r \<in> set [0..<length g]. has_root roots co (g ! r))
          \<longleftrightarrow> (\<forall>c \<in> set g. has_root roots co c)"
      by (auto simp: all_set_conv_all_nth)
    then have res: "res = (if \<forall>c \<in> set g. has_root roots co c
                           then Inr (map (first_root roots co) g) else Inl IndexError)"
      using solve_loop1_value [OF pc1 pg1' ne co inv, of roots "[0..<length g]"
          "replicate (length g) 0"]
        fold_update_all [of "replicate (length g) 0" g "first_root roots co"] c
      by simp
    have "fst (solve_acf_polyn roots h p_gamma p_coeff)
          = (case res of Inl e \<Rightarrow> Inl e | Inr r \<Rightarrow> Inr (Arr1 r))"
      using pg Arr1 ne c by (cases res) (simp_all add: solve_acf_polyn_def al)
    then show ?thesis
      using Arr1 by (simp add: res)
  next
    case (Arr2 G)
    have pg1': "store ?h1 p_gamma = Arr2 G"
      using pg1 Arr2 by simp
    have sh: "has_shape G (rows G) (cols G)"
      using rk Arr2 by (simp add: rect_has_shape)
    obtain res h' where c: "solve_loop2 roots p_gamma p_coeff (nxt h) (cols G) [0..<rows G] ?h1
                              (replicate (rows G) (replicate (cols G) 0)) = (res, h')"
      by (cases "solve_loop2 roots p_gamma p_coeff (nxt h) (cols G) [0..<rows G] ?h1
                   (replicate (rows G) (replicate (cols G) 0))")
    have res: "res = (if \<forall>c \<in> set (concat G). has_root roots co c
                      then Inr (map (map (first_root roots co)) G) else Inl IndexError)"
      using solve_loop2_value [OF pc1 pg1' ne co inv, of roots "cols G" "[0..<rows G]"
          "replicate (rows G) (replicate (cols G) 0)"]
        fold_rows_all [OF sh, of "replicate (rows G) (replicate (cols G) 0)"
          "first_root roots co"]
        all_cells_field [OF sh, of "has_root roots co"] c
      by simp
    have "fst (solve_acf_polyn roots h p_gamma p_coeff)
          = (case res of Inl e \<Rightarrow> Inl e | Inr r \<Rightarrow> Inr (Arr2 r))"
      using pg Arr2 ne c by (cases res) (simp_all add: solve_acf_polyn_def al)
    then show ?thesis
      using Arr2 by (simp add: res)
  next
    case (Arr3 g)
    then show ?thesis using rk by simp
  qed
qed

lemma solve_acf_polyn_frame:
  assumes "p < nxt h"
  shows "store (snd (solve_acf_polyn roots h p_gamma p_coeff)) p = store h p"
proof -
  let ?h1 = "h\<lparr>store := (store h)(nxt h := store h p_coeff), nxt := Suc (nxt h)\<rparr>"
  have al: "alloc h (store h p_coeff) = (nxt h, ?h1)"
    by (simp add: alloc_def)
  have ne: "p \<noteq> nxt h"
    using assms by simp
  have h1: "store ?h1 p = store h p"
    using ne by (simp add: alloc_def)
  show ?thesis
  proof (cases "store ?h1 p_gamma")
    case (Arr1 g)
    obtain res h' where c: "solve_loop1 roots p_gamma p_coeff (nxt h) [0..<length g] ?h1
                              (replicate (length g) 0) = (res, h')"
      by (cases "solve_loop1 roots p_gamma p_coeff (nxt h) [0..<length g] ?h1
                   (replicate (length g) 0)")
    have "store h' p = store h p"
      using solve_loop1_frame [OF ne, of roots p_gamma p_coeff "[0..<length g]" ?h1
          "replicate (length g) 0"] h1 c by simp
    then show ?thesis
      using Arr1 c by (cases res) (simp_all add: solve_acf_polyn_def al)
  next
    case (Arr2 G)
    obtain res h' where c: "solve_loop2 roots p_gamma p_coeff (nxt h) (cols G) [0..<rows G] ?h1
                              (replicate (rows G) (replicate (cols G) 0)) = (res, h')"
      by (cases "solve_loop2 roots p_gamma p_coeff (nxt h) (cols G) [0..<rows G] ?h1
                   (replicate (rows G) (replicate (cols G) 0))")
    have "store h' p = store h p"
      using solve_loop2_frame [OF ne, of roots p_gamma p_coeff "cols G" "[0..<rows G]" ?h1
          "replicate (rows G) (replicate (cols G) 0)"] h1 c by simp
    then show ?thesis
      using Arr2 c by (cases res) (simp_all add: solve_acf_polyn_def al)
  next
    case (Arr3 g)
    then show ?thesis
      using h1 by (simp add: solve_acf_polyn_def al)
  qed
qed

text \<open>
  Claim C3.  For a texture ACF array \<open>t\<close> of rank 1 or 2 and a coefficient vector
  \<open>[a2, a1, a0]\<close>, the inverter returns the array of the shape of \<open>t\<close> whose cell is the first
  root the solver returns for \<open>[a2, a1, a0 - t[cell]]\<close>, whatever that root is (no test for
  realness or range), a function of that cell's value and the coefficients alone.  The
  first root exists when the solver returns a non-empty array; if it returns an empty one
  for some cell, indexing it raises IndexError.
\<close>

theorem solve_acf_polyn_first_roots:
  assumes "p_gamma < nxt h" and "p_coeff < nxt h"
    and "store h p_coeff = Arr1 [a2, a1, a0]" and "store h p_gamma = t" and "rank12 t"
  shows "fst (solve_acf_polyn roots h p_gamma p_coeff)
         = (if \<forall>c \<in> set (cells_nd t). roots [a2, a1, a0 - c] \<noteq> []
            then Inr (map_nd (\<lambda>c. hd (roots [a2, a1, a0 - c])) t) else Inl IndexError)"
proof -
  have "has_root roots [a2, a1, a0] = (\<lambda>c. roots [a2, a1, a0 - c] \<noteq> [])"
    and "first_root roots [a2, a1, a0] = (\<lambda>c. hd (roots [a2, a1, a0 - c]))"
    by (simp_all add: fun_eq_iff has_root_def first_root_def)
  then show ?thesis
    using solve_acf_polyn_value [OF assms(1,2,3) _ assms(4,5), of roots] by simp
qed

text \<open>
  Claim C10.  The inverter leaves both its arguments as they were: the arrays at the two
  argument addresses (allocated before the call) are the same after the call, whatever the
  call returns or raises.  The assignments go to a copy at a new address, and each pass
  takes the constant term from the caller's array: for any earlier value \<open>u\<close> in the last
  entry of the copy, the polynomial solved for a cell is the caller's with constant term
  \<open>a0 - t\<close>.
\<close>

theorem solve_acf_polyn_arguments_unchanged:
  assumes "p_gamma < nxt h" and "p_coeff < nxt h"
  shows "store (snd (solve_acf_polyn roots h p_gamma p_coeff)) p_gamma = store h p_gamma
         \<and> store (snd (solve_acf_polyn roots h p_gamma p_coeff)) p_coeff = store h p_coeff
         \<and> (\<forall>co u t h1. co \<noteq> [] \<and> store h1 p_coeff = Arr1 co
                \<and> store h1 (nxt h) = Arr1 (co[length co - 1 := u])
              \<longrightarrow> fst (solve_cell roots p_coeff (nxt h) t h1) = cell_result roots co t)"
proof -
  have ne: "p_coeff \<noteq> nxt h"
    using assms by simp
  have "fst (solve_cell roots p_coeff (nxt h) t h1) = cell_result roots co t"
    if "co \<noteq> []" "store h1 p_coeff = Arr1 co" "store h1 (nxt h) = Arr1 (co[length co - 1 := u])"
    for co u t h1
  proof -
    have "copy_inv h1 (nxt h) co h1"
      unfolding copy_inv_def using that(3) by blast
    then show ?thesis
      by (rule solve_cell_inv(1) [OF _ that(2) ne that(1)])
  qed
  then show ?thesis
    using solve_acf_polyn_frame [OF assms(1)] solve_acf_polyn_frame [OF assms(2)] by blast
qed

theorem solve_acf_polyn_first_roots_witness:
  "(0::nat) < nxt heap_demo \<and> 1 < nxt heap_demo \<and> store heap_demo 1 = Arr1 [1 / 2, 0, 1]
   \<and> store heap_demo 0 = Arr1 [3 / 2] \<and> rank12 (Arr1 [3 / 2 :: real])
   \<and> fst (solve_acf_polyn roots_quadratic heap_demo 0 1) = Inr (Arr1 [1])"
  using solve_acf_polyn_first_roots [of 0 heap_demo 1 "1 / 2" 0 1 "Arr1 [3 / 2]" roots_quadratic]
  by (simp add: heap_demo_def)

theorem solve_acf_polyn_arguments_unchanged_witness:
  "(0::nat) < nxt heap_demo \<and> 1 < nxt heap_demo
   \<and> store (snd (solve_acf_polyn roots_quadratic heap_demo 0 1)) 0 = Arr1 [3 / 2]
   \<and> store (snd (solve_acf_polyn roots_quadratic heap_demo 0 1)) 1 = Arr1 [1 / 2, 0, 1]
   \<and> fst (solve_cell roots_quadratic 1 2 (3 / 2)
            (write_arr (snd (alloc heap_demo (Arr1 [1 / 2, 0, 1]))) 2 (Arr1 [1 / 2, 0, 7])))
       = Inr 1"
proof -
  have a: "(0::nat) < nxt heap_demo" and b: "1 < nxt heap_demo"
    by (simp_all add: heap_demo_def)
  have n: "nxt heap_demo = 2"
    by (simp add: heap_demo_def)
  note t = solve_acf_polyn_arguments_unchanged [OF a b, of roots_quadratic]
  let ?h1 = "write_arr (snd (alloc heap_demo (Arr1 [1 / 2, 0, 1]))) 2 (Arr1 [1 / 2, 0, 7])"
  have "fst (solve_cell roots_quadratic 1 (nxt heap_demo) (3 / 2) ?h1)
        = cell_result roots_quadratic [1 / 2, 0, 1] (3 / 2)"
    using t by (intro t [THEN conjunct2, THEN conjunct2, rule_format, of _ _ 7])
      (simp add: heap_demo_def alloc_def)
  moreover have "cell_result roots_quadratic [1 / 2, 0, 1] (3 / 2) = Inr 1"
    by (simp add: cell_result_def has_root_def first_root_def)
  ultimately show ?thesis
    using t a b by (simp add: n heap_demo_def)
qed

lemma count_eq_PInf: "count_eq A PInf = 0 \<longleftrightarrow> PInf \<notin> set (cells A)"
proof -
  have "fl_eq a PInf \<longleftrightarrow> a = PInf" for a
    by (cases a) simp_all
  then show ?thesis
    by (auto simp: count_eq_def filter_empty_conv)
qed

text \<open>The comparison of the second assertion, \<open>== np.nan\<close>, holds for no cell.\<close>

lemma count_eq_NaN: "count_eq A NaN = 0"
proof -
  have "\<not> fl_eq a NaN" for a
    by (cases a) simp_all
  then show ?thesis
    by (simp add: count_eq_def)
qed

lemma texture_one_cell:
  "texture_field (env_demo sample) engine_one_cell g
   = (Inr [[mnlt erfc_sat quantile_sat (sample g) 5]], Suc g)"
  by (simp add: texture_field_def env_demo_def engine_one_cell_def shape2_def rows_def cols_def
      normal_const_def broadcast2_def bdim_def bidx_def mnlt_field_def)

text \<open>
  Claim C6, as amended.  In every frame synthesis the texture field is checked right after
  the non-linear transform for cells equal to plus infinity: if there is one, the call
  raises AssertionError, having drawn the white noise once, and nothing is generated
  again; a texture field with a cell equal to plus infinity is never returned.
\<close>

theorem generate_asserts_no_infinity:
  assumes "texture_field e s g = (Inr Gan_field, g1)"
  shows "(PInf \<in> set (cells Gan_field)
            \<longrightarrow> generate_K_distributed_noise_fast e s g = (Inl AssertionError, s, g1))
         \<and> (\<forall>amp tex. fst (generate_K_distributed_noise_fast e s g) = Inr (amp, tex)
               \<longrightarrow> tex = Gan_field \<and> PInf \<notin> set (cells tex))"
  using assms
  by (auto simp: generate_K_distributed_noise_fast_def count_eq_PInf count_eq_NaN
      split: prod.splits sum.splits if_splits)

theorem generate_asserts_no_infinity_witness:
  "texture_field (env_demo deep_tail_first) engine_one_cell 0 = (Inr [[PInf]], 1)
   \<and> generate_K_distributed_noise_fast (env_demo deep_tail_first) engine_one_cell 0
       = (Inl AssertionError, engine_one_cell, 1)"
proof -
  have t: "texture_field (env_demo deep_tail_first) engine_one_cell 0 = (Inr [[PInf]], 1)"
    by (simp add: texture_one_cell deep_tail_first_def mnlt_sat_9)
  show ?thesis
    using generate_asserts_no_infinity [OF t] t by (simp add: cells_def)
qed

text \<open>
  Claim C6 as stated fails: with a deep-tail sample in the first draw the transform yields
  plus infinity and the call raises AssertionError, although the next draw would give a
  finite texture; the realization is not generated again.
\<close>

theorem generate_does_not_retry:
  "generate_K_distributed_noise_fast (env_demo deep_tail_first) engine_one_cell 0
     = (Inl AssertionError, engine_one_cell, 1)
   \<and> fst (texture_field (env_demo deep_tail_first) engine_one_cell 1) = Inr [[Fin 5]]"
  by (simp add: generate_K_distributed_noise_fast_def texture_one_cell deep_tail_first_def
      mnlt_sat_0 mnlt_sat_9 count_eq_def cells_def)

section \<open>Properties: the shapes of the engine's fields\<close>

lemma length_linspace [simp]: "length (linspace a b n) = n"
  by (simp add: linspace_def)

lemma has_shape_meshgrid:
  "has_shape (fst (meshgrid xs ys)) (length ys) (length xs)"
  "has_shape (snd (meshgrid xs ys)) (length ys) (length xs)"
  by (simp_all add: meshgrid_def has_shape_def list_all_iff)

lemma has_shape_ew2:
  "has_shape A h w \<Longrightarrow> has_shape B h w \<Longrightarrow> has_shape (ew2 f A B) h w"
  by (simp add: ew2_def has_shape_def list_all_length)

lemma has_shape_rect: "has_shape A h w \<Longrightarrow> rect A"
  by (cases A) (auto simp: has_shape_def rect_def cols_def)

lemma has_shape_shape2: "has_shape A h w \<Longrightarrow> 0 < h \<Longrightarrow> shape2 A = (h, w)"
  by (simp add: shape2_def has_shape_rows has_shape_cols)

lemma bdim_mismatch: "a \<noteq> b \<Longrightarrow> a \<noteq> 1 \<Longrightarrow> b \<noteq> 1 \<Longrightarrow> bdim a b = None"
  by (simp add: bdim_def)

lemma broadcast2_row_mismatch:
  "rows A \<noteq> rows B \<Longrightarrow> rows A \<noteq> 1 \<Longrightarrow> rows B \<noteq> 1 \<Longrightarrow> broadcast2 f A B = Inl ValueError"
  by (simp add: broadcast2_def bdim_mismatch)

lemma broadcast2_shape:
  assumes "broadcast2 f A B = Inr C"
  shows "\<exists>h w. bdim (rows A) (rows B) = Some h \<and> bdim (cols A) (cols B) = Some w
           \<and> has_shape C h w"
  using assms
  by (auto simp: broadcast2_def has_shape_def list_all_iff split: option.splits)

lemma speckle_shape:
  assumes "shape_preserving e"
  shows "\<exists>G g'. generate_correlated_Gaussian_via_expdecay e g = (Inr G, g')
           \<and> has_shape G 300 300"
proof -
  obtain Gwn g' where n: "np_normal e g 300 300 = (Gwn, g')"
    by (cases "np_normal e g 300 300")
  have sG: "has_shape Gwn 300 300"
    using assms n by (metis fst_conv shape_preserving_def)
  let ?F = "np_fft2 e (map (map complex_of_real) Gwn)"
  have sF: "has_shape ?F 300 300"
    using assms sG by (simp add: shape_preserving_def)
  let ?fx = "linspace 0.1 (1 / (10 / real (300::nat))) 300"
  let ?D = "ew2 (\<lambda>a b. sqrt (a ^ 2 + b ^ 2)) (fst (meshgrid ?fx ?fx)) (snd (meshgrid ?fx ?fx))"
  let ?R = "map (map sqrt) (map (map (\<lambda>d. 1 * (d powr (-1 * 0.6)))) ?D)"
  have sD: "has_shape ?D 300 300"
    using has_shape_meshgrid [of ?fx ?fx] by (intro has_shape_ew2) simp_all
  then have sR: "has_shape ?R 300 300"
    by simp
  have b: "broadcast2 (\<lambda>z r. z * complex_of_real r) ?F ?R
           = Inr (map2 (map2 (\<lambda>z r. z * complex_of_real r)) ?F ?R)"
    by (rule broadcast2_same_shape [OF sF sR])
  have sP: "has_shape (map2 (map2 (\<lambda>z r. z * complex_of_real r)) ?F ?R) 300 300"
    using has_shape_ew2 [OF sF sR] by (simp add: ew2_def)
  have sI: "has_shape (np_ifft2 e (map2 (map2 (\<lambda>z r. z * complex_of_real r)) ?F ?R)) 300 300"
    using assms sP by (simp add: shape_preserving_def)
  have "generate_correlated_Gaussian_via_expdecay e g
        = (Inr (np_ifft2 e (map2 (map2 (\<lambda>z r. z * complex_of_real r)) ?F ?R)), g')"
    unfolding generate_correlated_Gaussian_via_expdecay_def Let_def n prod.case
    by (simp add: meshgrid_def b [unfolded meshgrid_def, simplified])
  then show ?thesis
    using sI by blast
qed

lemma normalize_coeffs_nonempty: "normalize_coeffs cs = Inr cs' \<Longrightarrow> cs' \<noteq> []"
  by (auto simp: normalize_coeffs_def split: if_splits)

lemma coeffs_field_nonempty: "coeffs_field X T = Inr cs \<Longrightarrow> cs \<noteq> []"
  by (auto simp: coeffs_field_def split: sum.splits dest: normalize_coeffs_nonempty)

lemma gamma_acf_shape:
  "has_shape (ew2 f (fst (meshgrid (linspace a b n) (linspace a b n)))
                    (snd (meshgrid (linspace a b n) (linspace a b n)))) n n"
  using has_shape_meshgrid [of "linspace a b n" "linspace a b n"]
  by (intro has_shape_ew2) simp_all

lemma kfield_init_shape:
  assumes "kfield_init e w h v g = Inr (s, g')"
  shows "has_shape (gamma_field_acf s) (nat w) (nat w)
         \<and> has_shape (gaussian_field_acf s) (nat w) (nat w)
         \<and> img_w s = w \<and> img_h s = h \<and> gamma_shape s = v"
proof -
  let ?xs = "linspace 10 (real_of_int h) (nat w)"
  let ?gamma = "ew2 (\<lambda>x y. 1 + exp (- (x + y) / 10) * cos (pi * y / 8) / v)
                  (fst (meshgrid ?xs ?xs)) (snd (meshgrid ?xs ?xs))"
  have sg: "has_shape ?gamma (nat w) (nat w)"
    by (rule gamma_acf_shape)
  obtain X g1 where n: "np_normal e g (nat h) (nat w) = (X, g1)"
    by (cases "np_normal e g (nat h) (nat w)")
  from assms obtain T coeffs G where
    T: "map_field_err fl_real (mnlt_field e X v) = Inr T"
    and c: "coeffs_field X T = Inr coeffs"
    and sol: "fst (solve_acf_polyn (np_roots e)
                \<lparr>store = (\<lambda>_. Arr1 [])(0 := Arr2 ?gamma, 1 := Arr1 coeffs), nxt = 2\<rparr> 0 1)
              = Inr (Arr2 G)"
    and s: "s = \<lparr>img_w = w, img_h = h, gamma_shape = v, gamma_field_acf = ?gamma,
                 gaussian_field_acf = G\<rparr>"
    by (auto simp: kfield_init_def Let_def n meshgrid_def split: if_splits sum.splits
        ndarray.splits prod.splits)
  let ?h0 = "\<lparr>store = (\<lambda>_. Arr1 [])(0 := Arr2 ?gamma, 1 := Arr1 coeffs), nxt = 2\<rparr>"
  have "fst (solve_acf_polyn (np_roots e) ?h0 0 1)
        = (if \<forall>c \<in> set (cells_nd (Arr2 ?gamma)). has_root (np_roots e) coeffs c
           then Inr (map_nd (first_root (np_roots e) coeffs) (Arr2 ?gamma)) else Inl IndexError)"
    using has_shape_rect [OF sg] coeffs_field_nonempty [OF c]
    by (intro solve_acf_polyn_value) simp_all
  then have "G = map (map (first_root (np_roots e) coeffs)) ?gamma"
    using sol by (simp split: if_splits)
  then have "has_shape G (nat w) (nat w)"
    using sg by simp
  then show ?thesis
    using sg s by simp
qed

lemma texture_field_shape:
  assumes e: "shape_preserving e"
    and a: "has_shape (gamma_field_acf s) n m" and b: "has_shape (gaussian_field_acf s) n m"
    and n: "0 < n"
  shows "\<exists>Gan g1. texture_field e s g = (Inr Gan, g1) \<and> has_shape Gan n m"
proof -
  obtain X g1 where nm: "np_normal e g n m = (X, g1)"
    by (cases "np_normal e g n m")
  have sX: "has_shape X n m"
    using e nm by (metis fst_conv shape_preserving_def)
  let ?F = "np_fft2 e (map (map complex_of_real) X)"
  let ?R = "map (map csqrt) (np_fft2 e (gaussian_field_acf s))"
  have sF: "has_shape ?F n m" and sR: "has_shape ?R n m"
    using e sX b by (simp_all add: shape_preserving_def)
  have br: "broadcast2 (*) ?F ?R = Inr (map2 (map2 (*)) ?F ?R)"
    by (rule broadcast2_same_shape [OF sF sR])
  have sP: "has_shape (map2 (map2 (*)) ?F ?R) n m"
    using has_shape_ew2 [OF sF sR] by (simp add: ew2_def)
  then have sI: "has_shape (np_ifft2 e (map2 (map2 (*)) ?F ?R)) n m"
    using e by (simp add: shape_preserving_def)
  have "texture_field e s g
        = (Inr (mnlt_field e (map (map Re) (np_ifft2 e (map2 (map2 (*)) ?F ?R))) (gamma_shape s)), g1)"
    by (simp add: texture_field_def has_shape_shape2 [OF a n] nm br)
  moreover have "has_shape (mnlt_field e (map (map Re) (np_ifft2 e (map2 (map2 (*)) ?F ?R)))
                   (gamma_shape s)) n m"
    using sI by (simp add: mnlt_field_def)
  ultimately show ?thesis by blast
qed

lemma compose_K_mismatch:
  assumes "has_shape G 300 300" and "has_shape T n m" and "n \<noteq> 1" and "n \<noteq> 300"
  shows "compose_K G T = Inl ValueError"
proof -
  have "rows G = 300" and "rows (map (map np_sqrt) T) = n"
    using assms(1,2) by (simp_all add: has_shape_def rows_def)
  then have "broadcast2 cmul G (map (map np_sqrt) T) = Inl ValueError"
    using assms(3,4) by (intro broadcast2_row_mismatch) simp_all
  then show ?thesis
    by (simp add: compose_K_def)
qed

lemma compose_K_shape:
  assumes "has_shape G 300 300" and "has_shape T n m" and "0 < n"
    and "compose_K G T = Inr A"
  shows "(n = 1 \<or> n = 300) \<and> has_shape A 300 300"
proof -
  obtain C where C: "broadcast2 cmul G (map (map np_sqrt) T) = Inr C" and A: "A = map (map np_abs) C"
    using assms(4) by (auto simp: compose_K_def split: sum.splits)
  have r: "rows G = 300" "cols G = 300" "rows (map (map np_sqrt) T) = n"
    "cols (map (map np_sqrt) T) = m"
    using assms(1,2,3) has_shape_cols [of "map (map np_sqrt) T" n m]
    by (simp_all add: has_shape_rows has_shape_cols)
  from broadcast2_shape [OF C] obtain h w where
    hw: "bdim 300 n = Some h" "bdim 300 m = Some w" "has_shape C h w"
    unfolding r by blast
  have "h = 300" "n = 1 \<or> n = 300"
    using hw(1) assms(3) by (auto simp: bdim_def split: if_splits)
  moreover have "w = 300"
    using hw(2) by (auto simp: bdim_def split: if_splits)
  ultimately show ?thesis
    using hw(3) A by simp
qed

lemma sequence_fl_real: "sequence_list (map fl_real (map Fin r)) = Inr r"
  by (induction r) simp_all

lemma map_field_err_fl_real: "map_field_err fl_real (map (map Fin) T) = Inr T"
proof -
  have "map_field_err fl_real (map (map Fin) T) = map_field_err (\<lambda>a. fl_real (Fin a)) T"
    by (simp add: map_field_err_def o_def)
  also have "\<dots> = Inr (map (map (\<lambda>a. a)) T)"
    by (rule map_field_err_total) simp
  finally show ?thesis by simp
qed

lemma shape_preserving_demo: "shape_preserving (env_demo sample)"
  by (simp add: shape_preserving_def env_demo_def normal_const_def has_shape_def list_all_length)

lemma has_root_quadratic: "a \<noteq> 0 \<Longrightarrow> has_root roots_quadratic [a, b, c] t"
  by (simp add: has_root_def)

lemma coeffs_demo:
  "coeffs_field (replicate 3 (replicate 2 0)) (replicate 3 (replicate 2 5)) = Inr [1 / 2, 0, 1]"
proof -
  let ?X = "replicate 3 (replicate 2 (0::real))" and ?T = "replicate 3 (replicate 2 (5::real))"
  have s: "has_shape ?X 3 2" "has_shape ?T 3 2"
    by simp_all
  have t: "hermite_terms n ?X ?T = replicate 6 (physicist_hermite n 0 * 5)" for n
    by (simp add: hermite_terms_def cells_def eval_nat_numeral)
  have a0: "alpha_sum 0 ?X ?T = 900 / pi"
    by (simp add: alpha_sum_def t sum_list_replicate)
  have a1: "alpha_sum (Suc 0) ?X ?T = 0"
    by (simp add: alpha_sum_def t sum_list_replicate)
  have a2: "alpha_sum 2 ?X ?T = 450 / pi"
    by (simp add: alpha_sum_def t sum_list_replicate physicist_hermite_2)
  have nz: "alpha_sum 0 ?X ?T \<noteq> 0"
    by (simp add: a0)
  show ?thesis
    using coeffs_field_value [OF s nz] by (simp add: a0 a1 a2)
qed

lemma kfield_init_demo:
  "\<exists>s. kfield_init (env_demo zero_sample) 2 3 5 0 = Inr (s, 1)"
proof -
  let ?e = "env_demo zero_sample"
  let ?xs = "linspace 10 3 2"
  let ?gamma = "ew2 (\<lambda>x y. 1 + exp (- (x + y) / 10) * cos (pi * y / 8) / 5)
                  (fst (meshgrid ?xs ?xs)) (snd (meshgrid ?xs ?xs))"
  let ?h0 = "\<lparr>store = (\<lambda>_. Arr1 [])(0 := Arr2 ?gamma, 1 := Arr1 [1 / 2, 0, 1]), nxt = 2\<rparr>"
  have n: "np_normal ?e 0 3 2 = (replicate 3 (replicate 2 0), 1)"
    by (simp add: env_demo_def normal_const_def zero_sample_def)
  have m: "mnlt_field ?e (replicate 3 (replicate 2 0)) 5 = map (map Fin) (replicate 3 (replicate 2 5))"
    by (simp add: mnlt_field_def env_demo_def mnlt_sat_0)
  have sg: "has_shape ?gamma 2 2"
    by (rule gamma_acf_shape)
  have "fst (solve_acf_polyn (np_roots ?e) ?h0 0 1)
        = (if \<forall>c \<in> set (cells_nd (Arr2 ?gamma)). has_root (np_roots ?e) [1 / 2, 0, 1] c
           then Inr (map_nd (first_root (np_roots ?e) [1 / 2, 0, 1]) (Arr2 ?gamma))
           else Inl IndexError)"
    using has_shape_rect [OF sg] by (intro solve_acf_polyn_value) simp_all
  moreover have "has_root (np_roots ?e) [1 / 2, 0, 1] c" for c
    by (simp add: env_demo_def has_root_quadratic)
  ultimately have sol: "fst (solve_acf_polyn (np_roots ?e) ?h0 0 1)
        = Inr (Arr2 (map (map (first_root (np_roots ?e) [1 / 2, 0, 1])) ?gamma))"
    by simp
  have f: "map_field_err fl_real (map (map Fin) (replicate 3 (replicate 2 5)))
           = Inr (replicate 3 (replicate 2 5))"
    by (rule map_field_err_fl_real)
  show ?thesis
    using n m f coeffs_demo sol
    by (auto simp: kfield_init_def Let_def meshgrid_def split: sum.splits ndarray.splits)
qed

lemma zero_times_field:
  assumes "has_shape B n m"
  shows "map2 (map2 (*)) (replicate n (replicate m (0::complex))) B = replicate n (replicate m 0)"
proof (rule nth_equalityI)
  show "length (map2 (map2 (*)) (replicate n (replicate m (0::complex))) B)
        = length (replicate n (replicate m (0::complex)))"
    using assms by (simp add: has_shape_def)
next
  fix i assume "i < length (map2 (map2 (*)) (replicate n (replicate m (0::complex))) B)"
  then have i: "i < n"
    by simp
  then have l: "length (B ! i) = m"
    using assms by (simp add: has_shape_nth)
  have "map2 (*) (replicate m (0::complex)) (B ! i) = replicate m 0"
    by (rule nth_equalityI) (simp_all add: l)
  then show "map2 (map2 (*)) (replicate n (replicate m (0::complex))) B ! i
             = replicate n (replicate m 0) ! i"
    using i assms by (simp add: has_shape_def)
qed

lemma texture_zero_noise:
  assumes a: "has_shape (gamma_field_acf s) n m" and b: "has_shape (gaussian_field_acf s) n m"
    and n: "0 < n" and v: "gamma_shape s = 5"
  shows "texture_field (env_demo zero_sample) s g
         = (Inr (replicate n (replicate m (Fin 5))), Suc g)"
proof -
  let ?Z = "replicate n (replicate m (0::complex))"
  let ?R = "map (map csqrt) (gaussian_field_acf s)"
  have sR: "has_shape ?R n m"
    using b by simp
  have br: "broadcast2 (*) ?Z ?R = Inr ?Z"
    using broadcast2_same_shape [of ?Z n m ?R "(*)"] sR zero_times_field [OF sR] by simp
  show ?thesis
    using br
    by (simp add: texture_field_def has_shape_shape2 [OF a n] env_demo_def normal_const_def
        zero_sample_def mnlt_field_def mnlt_sat_0 v)
qed

lemma cells_replicate: "set (cells (replicate n (replicate m c))) \<subseteq> {c}"
  by (auto simp: cells_def)

text \<open>
  What the engine does with its grid parameters, for any library functions that keep
  shapes: the cached fields and the texture have \<open>img_w\<close> rows and \<open>img_w\<close> columns, the
  amplitude has the 300 rows and columns of the speckle, and a frame is returned only for
  \<open>img_w\<close> equal to 1 or 300.
\<close>

lemma generate_frame_shapes:
  assumes e: "shape_preserving e" and w: "0 < w"
    and init: "kfield_init e w h v g = Inr (s, g1)"
    and gen: "fst (generate_K_distributed_noise_fast e s g1) = Inr (amp, tex)"
  shows "has_shape tex (nat w) (nat w) \<and> has_shape amp 300 300 \<and> (w = 1 \<or> w = 300)"
proof -
  from kfield_init_shape [OF init]
  have a: "has_shape (gamma_field_acf s) (nat w) (nat w)"
    and b: "has_shape (gaussian_field_acf s) (nat w) (nat w)"
    by simp_all
  have n: "0 < nat w"
    using w by simp
  obtain Gan g2 where t: "texture_field e s g1 = (Inr Gan, g2)"
    and sT: "has_shape Gan (nat w) (nat w)"
    using texture_field_shape [OF e a b n] by blast
  obtain G g3 where sp: "generate_correlated_Gaussian_via_expdecay e g2 = (Inr G, g3)"
    and sG: "has_shape G 300 300"
    using speckle_shape [OF e] by blast
  from gen have c: "compose_K G Gan = Inr amp" and tex: "tex = Gan"
    by (auto simp: generate_K_distributed_noise_fast_def t sp split: if_splits sum.splits)
  from compose_K_shape [OF sG sT n c] have "nat w = 1 \<or> nat w = 300" "has_shape amp 300 300"
    by simp_all
  then show ?thesis
    using sT tex w by auto
qed

text \<open>
  Claim C7.  A frame of an engine built with positive grid dimensions \<open>(img_h, img_w)\<close> is
  to be a pair of arrays of shape \<open>(img_h, img_w)\<close>.  For \<open>img_w = 2\<close>, \<open>img_h = 3\<close> and shape
  parameter 5 the engine is built, its texture ACF has shape \<open>(2, 2)\<close>, not \<open>(3, 2)\<close>, and
  the frame generator raises ValueError: the speckle field of shape \<open>(300, 300)\<close> does not
  broadcast with the texture of shape \<open>(2, 2)\<close>.
\<close>

theorem engine_2_by_3_frame_raises:
  "(case kfield_init (env_demo zero_sample) 2 3 5 0 of
      Inl err \<Rightarrow> False
    | Inr (s, g1) \<Rightarrow>
        has_shape (gamma_field_acf s) 2 2
        \<and> fst (generate_K_distributed_noise_fast (env_demo zero_sample) s g1) = Inl ValueError)"
proof -
  let ?e = "env_demo zero_sample"
  obtain s where init: "kfield_init ?e 2 3 5 0 = Inr (s, 1)"
    using kfield_init_demo by blast
  from kfield_init_shape [OF init]
  have a: "has_shape (gamma_field_acf s) 2 2" and b: "has_shape (gaussian_field_acf s) 2 2"
    and v: "gamma_shape s = 5"
    by simp_all
  have t: "texture_field ?e s 1 = (Inr (replicate 2 (replicate 2 (Fin 5))), Suc 1)"
    by (rule texture_zero_noise [OF a b _ v]) simp
  obtain G g2 where sp: "generate_correlated_Gaussian_via_expdecay ?e (Suc 1) = (Inr G, g2)"
    and sG: "has_shape G 300 300"
    using speckle_shape [OF shape_preserving_demo] by blast
  have c: "compose_K G (replicate 2 (replicate 2 (Fin 5))) = Inl ValueError"
    by (rule compose_K_mismatch [OF sG, where n = 2 and m = 2]) simp_all
  have "PInf \<notin> set (cells (replicate 2 (replicate 2 (Fin 5))))"
    using cells_replicate [of 2 2 "Fin 5"] by auto
  then have "fst (generate_K_distributed_noise_fast ?e s 1) = Inl ValueError"
    using t sp c
    by (simp add: generate_K_distributed_noise_fast_def count_eq_PInf count_eq_NaN)
  then show ?thesis
    using a by (simp add: init)
qed

end
